theory Spec2Isabelle
  imports Complex_Main "HOL-Library.Word"
begin

section \<open>Data model (types/snp.ts)\<close>

text \<open>
  One row of the \<open>snps\<close> table. The worker reads only the columns below; they carry the
  prefix \<open>snp_\<close> because \<open>rsid\<close>, \<open>chromosome\<close> and \<open>gene\<close> are also field names of
  \<open>UserGenotype\<close> and of the search filters. The remaining columns of \<open>SNP_COLUMNS\<close> are
  never inspected by the worker and ride in the record's extension.
  A nullable column is an \<open>option\<close>, \<open>None\<close> being SQL NULL.
\<close>

record SNPRecord =
  snp_rsid :: string
  snp_content :: string
  snp_chromosome :: "string option"
  snp_gene :: "string option"
  snp_gene_s :: "string option"
  snp_clin_sig :: "string option"
  snp_clin_disease :: "string option"
  snp_clin_gene_name :: "string option"

record UserGenotype =
  rsid :: string
  ug_chromosome :: string
  position :: string
  genotype :: string

text \<open>\<open>interface MatchedSNP extends UserGenotype { snpData: SNPRecord }\<close>\<close>

record MatchedSNP = UserGenotype +
  snpData :: SNPRecord

datatype error =
    DatabaseNotLoaded
  | FailedToLoadDatabase string
  | BodyNotReadable
  | EngineFailure

section \<open>The embedded SQL engine (sql.js), as the worker uses it\<close>

text \<open>
  A prepared statement is consumed with \<open>while (stmt.step()) { ... stmt.getAsObject() ... }\<close>.
  Each call of \<open>step\<close> yields a row, reports the end of the rows, or throws. A cursor is
  that sequence of outcomes; a statement whose \<open>prepare\<close> or \<open>bind\<close> throws is the cursor
  \<open>Throw\<close>. The same shape describes the chunks of a streamed response body.
\<close>

datatype 'r cursor = Done | Throw | Row 'r "'r cursor"

datatype sql_param = PText string | PNum int

text \<open>
  The WHERE conditions the worker can push, each standing for its SQL text:
  \<^item> \<open>SearchTermCond\<close>: \<open>(rsid LIKE ? OR gene LIKE ? OR gene_s LIKE ? OR content LIKE ? OR
    clin_disease LIKE ? OR clin_gene_name LIKE ?)\<close>
  \<^item> \<open>ChromosomeCond\<close>: \<open>chromosome = ?\<close>
  \<^item> \<open>GeneCond\<close>: \<open>(gene LIKE ? OR gene_s LIKE ? OR clin_gene_name LIKE ?)\<close>
  \<^item> \<open>ClinSigCond\<close>: \<open>clin_sig LIKE ?\<close>
  \<^item> \<open>DiseaseCond\<close>: \<open>clin_disease LIKE ?\<close>
\<close>

datatype condition = SearchTermCond | ChromosomeCond | GeneCond | ClinSigCond | DiseaseCond

text \<open>
  The three statement shapes the worker prepares, with the values it binds:
  \<^item> \<open>SelectIn rsids\<close>: \<open>SELECT <columns> FROM snps WHERE rsid IN (?,...,?)\<close>
  \<^item> \<open>CountWhere conds params\<close>: \<open>SELECT COUNT(*) as count FROM snps [WHERE c1 AND ... AND cn]\<close>
  \<^item> \<open>SelectWhere conds params\<close>: \<open>SELECT <columns> FROM snps [WHERE ...] LIMIT ? OFFSET ?\<close>
\<close>

datatype sql_statement =
    SelectIn "string list"
  | CountWhere "condition list" "sql_param list"
  | SelectWhere "condition list" "sql_param list"

text \<open>
  The loaded database: the rows of \<open>snps\<close> in storage order, and for each statement whether
  the engine fails on it. \<open>faults db q = Some k\<close> means that the statement yields at most
  its first \<open>k\<close> rows and then throws (\<open>k = 0\<close> covers a throwing \<open>prepare\<close> or \<open>bind\<close>);
  \<open>None\<close> means it runs to the end. A statement behaves the same way each time it is
  prepared: the database is never written after the load.
\<close>

record Database =
  snps :: "SNPRecord list"
  faults :: "sql_statement \<Rightarrow> nat option"

fun cursor_of :: "nat option \<Rightarrow> 'r list \<Rightarrow> 'r cursor" where
  "cursor_of None rows = foldr Row rows Done"
| "cursor_of (Some k) rows = foldr Row (take k rows) Throw"

subsection \<open>LIKE, ASCII case-insensitive, with the wildcards \<open>%\<close> and \<open>_\<close>\<close>

definition lower :: "char \<Rightarrow> char" where
  "lower c = (let n = (of_char c :: nat) in if 65 \<le> n \<and> n \<le> 90 then char_of (n + 32) else c)"

fun like :: "string \<Rightarrow> string \<Rightarrow> bool" where
  "like [] [] = True"
| "like [] (c # s) = False"
| "like (p # ps) [] = (p = CHR ''%'' \<and> like ps [])"
| "like (p # ps) (c # s) =
     (if p = CHR ''%'' then like ps (c # s) \<or> like (p # ps) s
      else (p = CHR ''_'' \<or> lower p = lower c) \<and> like ps s)"

text \<open>A NULL column never satisfies LIKE or \<open>=\<close> inside a WHERE clause.\<close>

fun like_col :: "string \<Rightarrow> string option \<Rightarrow> bool" where
  "like_col p None = False"
| "like_col p (Some s) = like p s"

fun cond_arity :: "condition \<Rightarrow> nat" where
  "cond_arity SearchTermCond = 6"
| "cond_arity ChromosomeCond = 1"
| "cond_arity GeneCond = 3"
| "cond_arity ClinSigCond = 1"
| "cond_arity DiseaseCond = 1"

fun cond_holds :: "condition \<Rightarrow> string list \<Rightarrow> 'a SNPRecord_scheme \<Rightarrow> bool" where
  "cond_holds SearchTermCond ps r =
     (like_col (ps ! 0) (Some (snp_rsid r)) \<or> like_col (ps ! 1) (snp_gene r) \<or>
      like_col (ps ! 2) (snp_gene_s r) \<or> like_col (ps ! 3) (Some (snp_content r)) \<or>
      like_col (ps ! 4) (snp_clin_disease r) \<or> like_col (ps ! 5) (snp_clin_gene_name r))"
| "cond_holds ChromosomeCond ps r = (snp_chromosome r = Some (ps ! 0))"
| "cond_holds GeneCond ps r =
     (like_col (ps ! 0) (snp_gene r) \<or> like_col (ps ! 1) (snp_gene_s r) \<or>
      like_col (ps ! 2) (snp_clin_gene_name r))"
| "cond_holds ClinSigCond ps r = like_col (ps ! 0) (snp_clin_sig r)"
| "cond_holds DiseaseCond ps r = like_col (ps ! 0) (snp_clin_disease r)"

text \<open>Placeholders are bound by position: each condition consumes its own parameters.\<close>

fun where_holds :: "condition list \<Rightarrow> string list \<Rightarrow> 'a SNPRecord_scheme \<Rightarrow> bool" where
  "where_holds [] ps r = True"
| "where_holds (c # cs) ps r =
     (cond_holds c (take (cond_arity c) ps) r \<and> where_holds cs (drop (cond_arity c) ps) r)"

definition where_arity :: "condition list \<Rightarrow> nat" where
  "where_arity cs = sum_list (map cond_arity cs)"

fun is_text :: "sql_param \<Rightarrow> bool" where
  "is_text (PText s) = True"
| "is_text (PNum n) = False"

fun text_of :: "sql_param \<Rightarrow> string" where
  "text_of (PText s) = s"
| "text_of (PNum n) = []"

text \<open>
  \<open>LIMIT l OFFSET o\<close> in SQLite: a negative offset counts as 0, a negative limit is no limit.
\<close>

definition limit_offset :: "int \<Rightarrow> int \<Rightarrow> 'r list \<Rightarrow> 'r list" where
  "limit_offset l off rows =
     (let rs = drop (nat off) rows in if l < 0 then rs else take (nat l) rs)"

text \<open>
  The rows a row-returning statement selects from the table, in storage order. \<open>IN\<close> and
  \<open>=\<close> compare text exactly, as SQLite does for a column without a collation of its own.
  A statement whose bound values do not fit its placeholders (wrong number, a number where
  text is expected or text where LIMIT and OFFSET expect integers) is rejected: \<open>None\<close>.
\<close>

fun select_rows :: "SNPRecord list \<Rightarrow> sql_statement \<Rightarrow> SNPRecord list option" where
  "select_rows tbl (SelectIn rsids) = Some (filter (\<lambda>r. snp_rsid r \<in> set rsids) tbl)"
| "select_rows tbl (SelectWhere conds ps) =
     (let n = where_arity conds in
      if list_all is_text (take n ps) then
        (case drop n ps of
           [PNum l, PNum off] \<Rightarrow>
             Some (limit_offset l off (filter (where_holds conds (map text_of (take n ps))) tbl))
         | _ \<Rightarrow> None)
      else None)"
| "select_rows tbl (CountWhere conds ps) = None"

fun count_rows :: "SNPRecord list \<Rightarrow> sql_statement \<Rightarrow> int option" where
  "count_rows tbl (CountWhere conds ps) =
     (if length ps = where_arity conds \<and> list_all is_text ps
      then Some (int (length (filter (where_holds conds (map text_of ps)) tbl)))
      else None)"
| "count_rows tbl _ = None"

text \<open>\<open>database.prepare(query)\<close> followed by \<open>stmt.bind(params)\<close>.\<close>

definition prepare :: "Database \<Rightarrow> sql_statement \<Rightarrow> SNPRecord cursor" where
  "prepare db q =
     (case select_rows (snps db) q of
        None \<Rightarrow> Throw
      | Some rows \<Rightarrow> cursor_of (faults db q) rows)"

definition prepare_count :: "Database \<Rightarrow> sql_statement \<Rightarrow> int cursor" where
  "prepare_count db q =
     (case count_rows (snps db) q of
        None \<Rightarrow> Throw
      | Some n \<Rightarrow> cursor_of (faults db q) [n])"

section \<open>Batch matching (snpMatcher.worker.ts, matchSNPsInBatches)\<close>

definition batchSize :: nat where
  "batchSize = 500"

text \<open>\<open>Array.prototype.slice(a, b)\<close> for indices \<open>0 \<le> a\<close>, \<open>0 \<le> b\<close>.\<close>

definition slice :: "'a list \<Rightarrow> nat \<Rightarrow> nat \<Rightarrow> 'a list" where
  "slice xs a b = take (min b (length xs) - a) (drop a xs)"

text \<open>\<open>{ ...userGenotype, snpData: row }\<close>\<close>

definition with_snpData :: "UserGenotype \<Rightarrow> SNPRecord \<Rightarrow> MatchedSNP" where
  "with_snpData g row =
     \<lparr>rsid = rsid g, ug_chromosome = ug_chromosome g, position = position g,
      genotype = genotype g, snpData = row\<rparr>"

text \<open>
  The body of the \<open>try\<close> block: the rows are stepped through one at a time, and each row is
  paired with the result of \<open>batch.find((g) => g.rsid === row.rsid)\<close>. When \<open>step\<close> throws,
  control leaves the loop for the \<open>catch\<close> block, which only logs; what was pushed stays.
\<close>

fun step_rows :: "UserGenotype list \<Rightarrow> SNPRecord cursor \<Rightarrow> MatchedSNP list \<Rightarrow> MatchedSNP list" where
  "step_rows batch Done ms = ms"
| "step_rows batch Throw ms = ms"
| "step_rows batch (Row row rest) ms =
     (case find (\<lambda>g. rsid g = snp_rsid row) batch of
        None \<Rightarrow> step_rows batch rest ms
      | Some userGenotype \<Rightarrow> step_rows batch rest (ms @ [with_snpData userGenotype row]))"

text \<open>
  What one run of the matcher produces and does: the matches it returns, the
  \<open>onProgress(current, total)\<close> calls in order, and the statements it prepared in order.
\<close>

record match_run =
  matches :: "MatchedSNP list"
  ticks :: "(nat \<times> nat) list"
  issued :: "sql_statement list"

function match_loop :: "Database \<Rightarrow> UserGenotype list \<Rightarrow> nat \<Rightarrow> match_run \<Rightarrow> match_run" where
  "match_loop database genotypes i st =
     (if i < length genotypes then
        (let batch = slice genotypes i (min (i + batchSize) (length genotypes));
             rsids = map rsid batch;
             query = SelectIn rsids;
             st1 = st\<lparr>issued := issued st @ [query],
                     matches := step_rows batch (prepare database query) (matches st)\<rparr>;
             st2 = st1\<lparr>ticks := ticks st1 @
                     [(min (i + batchSize) (length genotypes), length genotypes)]\<rparr>
         in match_loop database genotypes (i + batchSize) st2)
      else st)"
  by pat_completeness auto
termination
  by (relation "measure (\<lambda>(database, genotypes, i, st). length genotypes - i)")
     (auto simp: batchSize_def)

definition matchSNPsInBatches :: "Database \<Rightarrow> UserGenotype list \<Rightarrow> match_run" where
  "matchSNPsInBatches database genotypes =
     match_loop database genotypes 0 \<lparr>matches = [], ticks = [], issued = []\<rparr>"

text \<open>The worker's \<open>matchSNPs\<close>: the global \<open>db\<close> is \<open>None\<close> until a load has succeeded.\<close>

definition matchSNPs :: "Database option \<Rightarrow> UserGenotype list \<Rightarrow> error + match_run" where
  "matchSNPs db genotypes =
     (case db of
        None \<Rightarrow> Inl DatabaseNotLoaded
      | Some database \<Rightarrow> Inr (matchSNPsInBatches database genotypes))"

section \<open>Filtered search (snpMatcher.worker.ts, searchSNPs)\<close>

text \<open>
  A JavaScript \<open>number\<close> that is an integer, or \<open>NaN\<close>. Fractional and infinite values are
  not modelled. The falsy numbers are \<open>0\<close> and \<open>NaN\<close>.
\<close>

datatype jsnum = JNum int | JNaN

text \<open>The \<open>filters\<close> argument; an optional property that is \<open>undefined\<close> is \<open>None\<close>.\<close>

record filters =
  searchTerm :: "string option"
  chromosome :: "string option"
  gene :: "string option"
  clinicalSignificance :: "string option"
  disease :: "string option"
  limit :: "jsnum option"
  offset :: "jsnum option"

text \<open>
  \<open>String.prototype.trim\<close> on ASCII text: strips tab, line feed, vertical tab, form feed,
  carriage return and space from both ends. (Strings are byte strings here; the Unicode
  white space beyond ASCII that JavaScript also strips is not modelled.)
\<close>

definition is_space :: "char \<Rightarrow> bool" where
  "is_space c = (let n = (of_char c :: nat) in (9 \<le> n \<and> n \<le> 13) \<or> n = 32)"

definition trim :: "string \<Rightarrow> string" where
  "trim s = rev (dropWhile is_space (rev (dropWhile is_space s)))"

text \<open>\<open>filters.x\<close> used as a condition: defined and not the empty string.\<close>

fun truthy :: "string option \<Rightarrow> bool" where
  "truthy None = False"
| "truthy (Some s) = (s \<noteq> [])"

text \<open>\<open>filters.x && filters.x.trim()\<close> used as a condition.\<close>

fun nonblank :: "string option \<Rightarrow> bool" where
  "nonblank None = False"
| "nonblank (Some s) = (s \<noteq> [] \<and> trim s \<noteq> [])"

text \<open>\<open>filters.limit || 50\<close> and \<open>filters.offset || 0\<close>.\<close>

fun num_or :: "jsnum option \<Rightarrow> int \<Rightarrow> int" where
  "num_or None d = d"
| "num_or (Some JNaN) d = d"
| "num_or (Some (JNum n)) d = (if n = 0 then d else n)"

text \<open>\<open>conditions.push(c); params.push(...ps)\<close>\<close>

definition push :: "condition \<Rightarrow> sql_param list \<Rightarrow> condition list \<times> sql_param list
    \<Rightarrow> condition list \<times> sql_param list" where
  "push c ps cp = (fst cp @ [c], snd cp @ ps)"

text \<open>The first half of \<open>searchSNPs\<close>: the two arrays \<open>conditions\<close> and \<open>params\<close>.\<close>

definition build_where :: "filters \<Rightarrow> condition list \<times> sql_param list" where
  "build_where f =
     (let cp0 = ([], []);
          cp1 = (if nonblank (searchTerm f)
                 then (let term = ''%'' @ trim (the (searchTerm f)) @ ''%''
                       in push SearchTermCond (replicate 6 (PText term)) cp0)
                 else cp0);
          cp2 = (if truthy (chromosome f)
                 then push ChromosomeCond [PText (the (chromosome f))] cp1
                 else cp1);
          cp3 = (if nonblank (gene f)
                 then (let geneTerm = ''%'' @ trim (the (gene f)) @ ''%''
                       in push GeneCond (replicate 3 (PText geneTerm)) cp2)
                 else cp2);
          cp4 = (if truthy (clinicalSignificance f)
                 then push ClinSigCond [PText (''%'' @ the (clinicalSignificance f) @ ''%'')] cp3
                 else cp3);
          cp5 = (if nonblank (disease f)
                 then push DiseaseCond [PText (''%'' @ trim (the (disease f)) @ ''%'')] cp4
                 else cp4)
      in cp5)"

record search_result =
  results :: "SNPRecord list"
  total_count :: int

text \<open>\<open>while (stmt.step()) results.push(stmt.getAsObject())\<close>, outside any \<open>try\<close>.\<close>

fun collect_rows :: "'r cursor \<Rightarrow> 'r list \<Rightarrow> error + 'r list" where
  "collect_rows Done acc = Inr acc"
| "collect_rows Throw acc = Inl EngineFailure"
| "collect_rows (Row r rest) acc = collect_rows rest (acc @ [r])"

text \<open>
  \<open>countStmt.step(); total = (countStmt.getAsObject().count as number) || 0\<close>: one step,
  whose boolean result is ignored; without a row the count column is not a number and
  \<open>|| 0\<close> takes over.
\<close>

fun count_total :: "int cursor \<Rightarrow> error + int" where
  "count_total Throw = Inl EngineFailure"
| "count_total Done = Inr 0"
| "count_total (Row n rest) = Inr (if n = 0 then 0 else n)"

definition searchSNPs :: "Database option \<Rightarrow> filters \<Rightarrow> error + search_result" where
  "searchSNPs db f =
     (case db of
        None \<Rightarrow> Inl DatabaseNotLoaded
      | Some database \<Rightarrow>
          (let conditions = fst (build_where f);
               params = snd (build_where f)
           in case count_total (prepare_count database (CountWhere conditions params)) of
                Inl e \<Rightarrow> Inl e
              | Inr total' \<Rightarrow>
                  (let limit' = num_or (limit f) 50;
                       offset' = num_or (offset f) 0;
                       stmt = prepare database
                                (SelectWhere conditions (params @ [PNum limit', PNum offset']))
                   in case collect_rows stmt [] of
                        Inl e \<Rightarrow> Inl e
                      | Inr rows \<Rightarrow> Inr \<lparr>results = rows, total_count = total'\<rparr>)))"

section \<open>Streaming load (snpMatcher.worker.ts, loadDatabase)\<close>

type_synonym byte = "8 word"

text \<open>
  What \<open>fetch\<close> resolved to: the \<open>ok\<close> flag, the status text, the \<open>content-length\<close> header
  (\<open>None\<close> when absent) and the body (\<open>None\<close> when \<open>response.body\<close> is null), the body
  being the outcomes of the successive \<open>reader.read()\<close> calls.
\<close>

record response =
  ok :: bool
  statusText :: string
  content_length :: "string option"
  body :: "byte list cursor option"

text \<open>
  Everything outside the worker that a load depends on: whether \<open>initSqlJs\<close> resolves, what
  \<open>fetch\<close> resolves to (\<open>None\<close>: it rejects), and what \<open>new SQL.Database(buffer)\<close> builds
  (\<open>None\<close>: it throws).
\<close>

record load_env =
  initSqlJs_ok :: bool
  fetch_response :: "response option"
  new_Database :: "byte list \<Rightarrow> Database option"

definition is_digit :: "char \<Rightarrow> bool" where
  "is_digit c = (let n = (of_char c :: nat) in 48 \<le> n \<and> n \<le> 57)"

text \<open>
  \<open>parseInt(s, 10)\<close>: leading white space, an optional sign, then the longest run of
  decimal digits; \<open>NaN\<close> when there is no digit.
\<close>

definition parseInt :: "string \<Rightarrow> jsnum" where
  "parseInt s =
     (let s1 = dropWhile is_space s;
          neg = (case s1 of [] \<Rightarrow> False | c # r \<Rightarrow> c = CHR ''-'');
          s2 = (case s1 of [] \<Rightarrow> [] | c # r \<Rightarrow> if c = CHR ''-'' \<or> c = CHR ''+'' then r else s1);
          ds = takeWhile is_digit s2;
          v = foldl (\<lambda>a c. 10 * a + (int (of_char c) - 48)) 0 ds
      in if ds = [] then JNaN else JNum (if neg then - v else v))"

text \<open>\<open>total > 0\<close> (\<open>total\<close> is written \<open>total'\<close>: the name is taken in HOL)\<close>

fun positive :: "jsnum \<Rightarrow> bool" where
  "positive (JNum n) = (0 < n)"
| "positive JNaN = False"

fun num_value :: "jsnum \<Rightarrow> int" where
  "num_value (JNum n) = n"
| "num_value JNaN = 0"

text \<open>
  The download loop. It carries \<open>chunks\<close>, \<open>receivedLength\<close> and the progress values
  reported so far; a rejected \<open>read\<close> leaves the loop with the error. Progress values are
  rationals (the rounding of IEEE doubles is not modelled).
\<close>

fun read_loop :: "jsnum \<Rightarrow> byte list cursor \<Rightarrow> byte list list \<Rightarrow> nat \<Rightarrow> rat list
    \<Rightarrow> (error + byte list list \<times> nat) \<times> rat list" where
  "read_loop total' Done chunks receivedLength prog = (Inr (chunks, receivedLength), prog)"
| "read_loop total' Throw chunks receivedLength prog = (Inl EngineFailure, prog)"
| "read_loop total' (Row v rest) chunks receivedLength prog =
     (let chunks' = chunks @ [v];
          receivedLength' = receivedLength + length v;
          prog' = (if positive total'
                   then prog @ [30 + (of_nat receivedLength' / of_int (num_value total')) * 50]
                   else prog)
      in read_loop total' rest chunks' receivedLength' prog')"

text \<open>
  \<open>dbBuffer.set(chunk, position)\<close> for each chunk in turn (\<open>position\<close> is \<open>pos\<close>); \<open>set\<close> throws a RangeError when
  the chunk does not fit.
\<close>

fun combine :: "byte list list \<Rightarrow> byte list \<Rightarrow> nat \<Rightarrow> byte list option" where
  "combine [] dbBuffer pos = Some dbBuffer"
| "combine (chunk # chunks) dbBuffer pos =
     (if pos + length chunk \<le> length dbBuffer
      then combine chunks
             (take pos dbBuffer @ chunk @ drop (pos + length chunk) dbBuffer)
             (pos + length chunk)
      else None)"

text \<open>
  One call of \<open>loadDatabase\<close>: whether it resolved or rejected, the worker's global \<open>db\<close>
  afterwards, and the progress values reported.
\<close>

record load_run =
  outcome :: "error + unit"
  db_after :: "Database option"
  progress :: "rat list"

text \<open>The \<open>catch\<close> block: \<open>db = null; throw error\<close>.\<close>

definition rejected :: "error \<Rightarrow> rat list \<Rightarrow> load_run" where
  "rejected e prog = \<lparr>outcome = Inl e, db_after = None, progress = prog\<rparr>"

definition loadDatabase :: "load_env \<Rightarrow> Database option \<Rightarrow> load_run" where
  "loadDatabase env db =
     (let prog1 = [0, 10] in
      if \<not> initSqlJs_ok env then rejected EngineFailure prog1
      else
        (let prog2 = prog1 @ [30] in
         case fetch_response env of
           None \<Rightarrow> rejected EngineFailure prog2
         | Some response \<Rightarrow>
             if \<not> ok response then rejected (FailedToLoadDatabase (statusText response)) prog2
             else
               (let total' = (if truthy (content_length response)
                             then parseInt (the (content_length response)) else JNum 0)
                in case body response of
                     None \<Rightarrow> rejected BodyNotReadable prog2
                   | Some reader \<Rightarrow>
                       (case read_loop total' reader [] 0 prog2 of
                          (Inl e, prog3) \<Rightarrow> rejected e prog3
                        | (Inr (chunks, receivedLength), prog3) \<Rightarrow>
                            (let prog4 = prog3 @ [85] in
                             case combine chunks (replicate receivedLength 0) 0 of
                               None \<Rightarrow> rejected EngineFailure prog4
                             | Some dbBuffer \<Rightarrow>
                                 (let prog5 = prog4 @ [90] in
                                  case new_Database env dbBuffer of
                                    None \<Rightarrow> rejected EngineFailure prog5
                                  | Some d \<Rightarrow>
                                      \<lparr>outcome = Inr (), db_after = Some d,
                                       progress = prog5 @ [100]\<rparr>))))))"

section \<open>The file parser (utils/fileParser.ts, parse23andMeFile)\<close>

text \<open>\<open>String.prototype.toLowerCase\<close> on ASCII text.\<close>

definition toLowerCase :: "string \<Rightarrow> string" where
  "toLowerCase s = map lower s"

text \<open>\<open>fileContent.split("\n")\<close>\<close>

fun split_lines :: "string \<Rightarrow> string list" where
  "split_lines [] = [[]]"
| "split_lines (c # cs) =
     (if c = CHR 0x0A then [] # split_lines cs
      else (case split_lines cs of [] \<Rightarrow> [[c]] | l # ls \<Rightarrow> (c # l) # ls))"

text \<open>\<open>line.split(/\s+/)\<close>: the pieces between maximal runs of white space.\<close>

function split_ws :: "string \<Rightarrow> string list" where
  "split_ws s =
     (let tok = takeWhile (\<lambda>c. \<not> is_space c) s;
          rest = dropWhile (\<lambda>c. \<not> is_space c) s
      in if rest = [] then [tok] else tok # split_ws (dropWhile is_space rest))"
  by pat_completeness auto
termination
proof (relation "measure length")
  show "wf (measure length)" by simp
next
  fix s tok rest :: string
  assume rest: "rest = dropWhile (\<lambda>c. \<not> is_space c) s" and ne: "rest \<noteq> []"
  have "is_space (hd rest)" using rest ne hd_dropWhile [of "\<lambda>c. \<not> is_space c" s] by auto
  then have "dropWhile is_space rest = dropWhile is_space (tl rest)"
    using ne by (cases rest) simp_all
  then have "length (dropWhile is_space rest) \<le> length (tl rest)"
    using length_dropWhile_le [of is_space "tl rest"] by simp
  also have "\<dots> < length rest" using ne by (cases rest) simp_all
  also have "\<dots> \<le> length s" unfolding rest by (rule length_dropWhile_le)
  finally show "(dropWhile is_space rest, s) \<in> measure length" by simp
qed

declare split_ws.simps [simp del]

text \<open>\<open>rsid.match(/^(rs|i)\d+/i)\<close>: \<open>rs\<close> or \<open>i\<close> in either case, then a digit.\<close>

definition valid_rsid :: "string \<Rightarrow> bool" where
  "valid_rsid s =
     (case s of
        a # b # c # _ \<Rightarrow>
          (lower a = CHR ''r'' \<and> lower b = CHR ''s'' \<and> is_digit c) \<or>
          (lower a = CHR ''i'' \<and> is_digit b)
      | [a, b] \<Rightarrow> lower a = CHR ''i'' \<and> is_digit b
      | _ \<Rightarrow> False)"

text \<open>
  The two messages pushed to \<open>errors\<close>, with the values they interpolate:
  \<open>Line n: Invalid format - expected 4 columns, got k\<close> and
  \<open>Line n: Invalid rsid format: r\<close>.
\<close>

datatype parse_error = InvalidFormat nat nat | InvalidRsid nat string

record ParseResult =
  genotypes :: "UserGenotype list"
  totalLines :: nat
  skippedLines :: nat
  errors :: "parse_error list"

text \<open>The body of the \<open>for\<close> loop, for the line with index \<open>i\<close>.\<close>

definition parse_line :: "nat \<Rightarrow> string \<Rightarrow> ParseResult \<Rightarrow> ParseResult" where
  "parse_line i raw acc =
     (let line = trim raw in
      if line = [] then acc\<lparr>skippedLines := skippedLines acc + 1\<rparr>
      else if take 1 line = ''#'' then acc\<lparr>skippedLines := skippedLines acc + 1\<rparr>
      else
        (let parts = split_ws line in
         if length parts < 4 then
           acc\<lparr>errors := errors acc @ [InvalidFormat (i + 1) (length parts)],
               skippedLines := skippedLines acc + 1\<rparr>
         else if \<not> valid_rsid (parts ! 0) then
           acc\<lparr>errors := errors acc @ [InvalidRsid (i + 1) (parts ! 0)],
               skippedLines := skippedLines acc + 1\<rparr>
         else
           acc\<lparr>genotypes := genotypes acc @
                 [\<lparr>rsid = toLowerCase (parts ! 0), ug_chromosome = parts ! 1,
                   position = parts ! 2, genotype = parts ! 3\<rparr>]\<rparr>))"

fun parse_lines :: "nat \<Rightarrow> string list \<Rightarrow> ParseResult \<Rightarrow> ParseResult" where
  "parse_lines i [] acc = acc"
| "parse_lines i (l # ls) acc = parse_lines (i + 1) ls (parse_line i l acc)"

definition parse23andMeFile :: "string \<Rightarrow> ParseResult" where
  "parse23andMeFile fileContent =
     (let lines = split_lines fileContent
      in parse_lines 0 lines
           \<lparr>genotypes = [], totalLines = length lines, skippedLines = 0, errors = []\<rparr>)"

section \<open>Notions used in the statements\<close>

text \<open>The number of groups for \<open>n\<close> keys, the \<open>k\<close>-th group, and what one group contributes.\<close>

definition batch_count :: "nat \<Rightarrow> nat" where
  "batch_count n = (n + (batchSize - 1)) div batchSize"

definition batch_at :: "'a list \<Rightarrow> nat \<Rightarrow> 'a list" where
  "batch_at xs k = take batchSize (drop (k * batchSize) xs)"

definition batch_matches :: "Database \<Rightarrow> UserGenotype list \<Rightarrow> MatchedSNP list" where
  "batch_matches db batch = step_rows batch (prepare db (SelectIn (map rsid batch))) []"

text \<open>
  The matches one group obtains from the rows its statement yields: every row is paired
  with the first key of the group that has the row's identifier.
\<close>

definition pair_rows :: "UserGenotype list \<Rightarrow> SNPRecord list \<Rightarrow> MatchedSNP list" where
  "pair_rows batch rows =
     List.map_filter
       (\<lambda>row. map_option (\<lambda>g. with_snpData g row) (find (\<lambda>g. rsid g = snp_rsid row) batch))
       rows"

text \<open>The rows that satisfy the WHERE clause built from the filters.\<close>

definition filtered :: "Database \<Rightarrow> filters \<Rightarrow> SNPRecord list" where
  "filtered db f =
     filter (where_holds (fst (build_where f)) (map text_of (snd (build_where f)))) (snps db)"

text \<open>Sample data: rows and keys that carry nothing but their identifier.\<close>

definition mk_row :: "string \<Rightarrow> SNPRecord" where
  "mk_row k =
     \<lparr>snp_rsid = k, snp_content = [], snp_chromosome = None, snp_gene = None,
      snp_gene_s = None, snp_clin_sig = None, snp_clin_disease = None,
      snp_clin_gene_name = None\<rparr>"

definition mk_key :: "string \<Rightarrow> UserGenotype" where
  "mk_key k = \<lparr>rsid = k, ug_chromosome = ''1'', position = ''100'', genotype = ''AA''\<rparr>"

definition no_faults :: "sql_statement \<Rightarrow> nat option" where
  "no_faults q = None"

definition db_three :: Database where
  "db_three = \<lparr>snps = [mk_row ''rs1'', mk_row ''rs2'', mk_row ''rs3''], faults = no_faults\<rparr>"

definition no_filters :: filters where
  "no_filters =
     \<lparr>searchTerm = None, chromosome = None, gene = None, clinicalSignificance = None,
      disease = None, limit = None, offset = None\<rparr>"

definition db_one :: Database where
  "db_one = \<lparr>snps = [mk_row ''rs123''], faults = no_faults\<rparr>"

text \<open>An engine that throws on the second \<open>step\<close> of every statement.\<close>

definition fail_after_one :: "sql_statement \<Rightarrow> nat option" where
  "fail_after_one q = Some 1"

definition db_faulty :: Database where
  "db_faulty = \<lparr>snps = [mk_row ''rs1'', mk_row ''rs2''], faults = fail_after_one\<rparr>"

text \<open>An engine that throws on \<open>prepare\<close> for every statement.\<close>

definition fail_at_once :: "sql_statement \<Rightarrow> nat option" where
  "fail_at_once q = Some 0"

definition db_down :: Database where
  "db_down = \<lparr>snps = [mk_row ''rs1'', mk_row ''rs2''], faults = fail_at_once\<rparr>"

text \<open>
  Sample loads: a response with status 404, a successful response without a body, and a
  successful response whose body arrives in two chunks; the engine opens exactly the image
  \<open>1, 2, 3\<close>.
\<close>

definition resp_404 :: response where
  "resp_404 = \<lparr>ok = False, statusText = ''Not Found'', content_length = None, body = None\<rparr>"

definition resp_no_body :: response where
  "resp_no_body = \<lparr>ok = True, statusText = ''OK'', content_length = None, body = None\<rparr>"

definition resp_two_chunks :: response where
  "resp_two_chunks =
     \<lparr>ok = True, statusText = ''OK'', content_length = Some ''3'',
      body = Some (Row [1, 2] (Row [3] Done))\<rparr>"

definition open_image :: "byte list \<Rightarrow> Database option" where
  "open_image buf = (if buf = [1, 2, 3] then Some db_three else None)"

definition env_of :: "response \<Rightarrow> load_env" where
  "env_of r = \<lparr>initSqlJs_ok = True, fetch_response = Some r, new_Database = open_image\<rparr>"

section \<open>The matcher's loop, group by group\<close>

declare match_loop.simps [simp del]

lemma batch_count_le: "batch_count n \<le> j \<longleftrightarrow> n \<le> j * batchSize"
proof -
  have "(n + 499) div 500 < Suc j \<longleftrightarrow> n + 499 < Suc j * 500"
    by (rule div_less_iff_less_mult) simp
  then have "(n + 499) div 500 \<le> j \<longleftrightarrow> n \<le> j * 500"
    by (simp add: less_Suc_eq_le)
  then show ?thesis by (simp add: batch_count_def batchSize_def)
qed

lemma slice_take: "slice xs a (min (a + b) (length xs)) = take b (drop a xs)"
proof (cases "a + b \<le> length xs")
  case True
  then show ?thesis by (simp add: slice_def min_absorb1)
next
  case False
  then have "length (drop a xs) \<le> b" by simp
  then have "take b (drop a xs) = drop a xs" by (rule take_all)
  moreover have "slice xs a (min (a + b) (length xs)) = drop a xs"
    using False by (simp add: slice_def min_absorb2)
  ultimately show ?thesis by simp
qed

lemma slice_batch: "slice xs (j * batchSize) (min (j * batchSize + batchSize) (length xs)) = batch_at xs j"
  unfolding batch_at_def by (rule slice_take)

lemma step_rows_append: "step_rows b c ms = ms @ step_rows b c []"
proof (induction c arbitrary: ms)
  case (Row row rest)
  show ?case
  proof (cases "find (\<lambda>g. rsid g = snp_rsid row) b")
    case None
    then show ?thesis using Row.IH [of ms] by simp
  next
    case (Some g)
    have "step_rows b (Row row rest) ms = step_rows b rest (ms @ [with_snpData g row])"
      using Some by simp
    also have "\<dots> = (ms @ [with_snpData g row]) @ step_rows b rest []"
      by (rule Row.IH)
    also have "\<dots> = ms @ ([with_snpData g row] @ step_rows b rest [])"
      by simp
    also have "[with_snpData g row] @ step_rows b rest [] = step_rows b rest [with_snpData g row]"
      by (rule Row.IH [symmetric])
    also have "\<dots> = step_rows b (Row row rest) []"
      using Some by simp
    finally show ?thesis .
  qed
qed simp_all

lemma match_run_updates:
  "st\<lparr>issued := a, matches := b, ticks := c\<rparr> = \<lparr>matches = b, ticks = c, issued = a\<rparr>"
  by (cases st) simp

lemma match_loop_unfold:
  "match_loop db gs (j * batchSize) st =
     (if j < batch_count (length gs) then
        match_loop db gs (j * batchSize + batchSize)
          \<lparr>matches = matches st @ batch_matches db (batch_at gs j),
           ticks = ticks st @ [(min (j * batchSize + batchSize) (length gs), length gs)],
           issued = issued st @ [SelectIn (map rsid (batch_at gs j))]\<rparr>
      else st)"
proof (cases "j < batch_count (length gs)")
  case True
  then have lt: "j * batchSize < length gs" using batch_count_le [of "length gs" j] by simp
  have "step_rows (batch_at gs j) (prepare db (SelectIn (map rsid (batch_at gs j)))) (matches st)
        = matches st @ batch_matches db (batch_at gs j)"
    unfolding batch_matches_def by (rule step_rows_append)
  then show ?thesis using True lt
    by (subst match_loop.simps) (simp add: slice_batch Let_def match_run_updates)
next
  case False
  then have "\<not> j * batchSize < length gs" using batch_count_le [of "length gs" j] by simp
  then show ?thesis using False by (subst match_loop.simps) simp
qed

lemma match_loop_run:
  "match_loop db gs (j * batchSize) st =
     \<lparr>matches = matches st @ concat (map (\<lambda>k. batch_matches db (batch_at gs k)) [j..<batch_count (length gs)]),
      ticks = ticks st @ map (\<lambda>k. (min (k * batchSize + batchSize) (length gs), length gs)) [j..<batch_count (length gs)],
      issued = issued st @ map (\<lambda>k. SelectIn (map rsid (batch_at gs k))) [j..<batch_count (length gs)]\<rparr>"
proof (induction "batch_count (length gs) - j" arbitrary: j st)
  case 0
  then show ?case by (subst match_loop_unfold) simp
next
  case (Suc d)
  then have lt: "j < batch_count (length gs)" and d: "d = batch_count (length gs) - Suc j" by simp_all
  have "match_loop db gs (Suc j * batchSize) st' = 
     \<lparr>matches = matches st' @ concat (map (\<lambda>k. batch_matches db (batch_at gs k)) [Suc j..<batch_count (length gs)]),
      ticks = ticks st' @ map (\<lambda>k. (min (k * batchSize + batchSize) (length gs), length gs)) [Suc j..<batch_count (length gs)],
      issued = issued st' @ map (\<lambda>k. SelectIn (map rsid (batch_at gs k))) [Suc j..<batch_count (length gs)]\<rparr>" for st'
    by (rule Suc.hyps(1) [OF d])
  then have ih: "match_loop db gs (j * batchSize + batchSize) st' = 
     \<lparr>matches = matches st' @ concat (map (\<lambda>k. batch_matches db (batch_at gs k)) [Suc j..<batch_count (length gs)]),
      ticks = ticks st' @ map (\<lambda>k. (min (k * batchSize + batchSize) (length gs), length gs)) [Suc j..<batch_count (length gs)],
      issued = issued st' @ map (\<lambda>k. SelectIn (map rsid (batch_at gs k))) [Suc j..<batch_count (length gs)]\<rparr>" for st'
    by (simp add: add.commute)
  show ?case
    by (subst match_loop_unfold) (simp add: lt ih upt_conv_Cons [OF lt])
qed



lemma ceil_batch_count: "nat \<lceil>real n / 500\<rceil> = batch_count n"
proof -
  have "\<lceil>real n / 500\<rceil> = - (- int n div 500)"
    using ceiling_divide_eq_div [of "int n" 500] by simp
  also have "\<dots> = int ((n + 499) div 500)" by (simp add: zdiv_int)
  finally show ?thesis by (simp add: batch_count_def batchSize_def)
qed
lemma slice_window: "slice xs a (a + b) = take b (drop a xs)"
proof -
  have "min (a + b) (length xs) - a = min b (length xs - a)" by simp
  then have "slice xs a (a + b) = take (min b (length (drop a xs))) (drop a xs)"
    by (simp add: slice_def)
  then show ?thesis by (simp add: min_def)
qed
lemma batch_at_slice: "batch_at xs k = slice xs (k * 500) (k * 500 + 500)"
  by (simp add: slice_window batch_at_def batchSize_def)
lemma concat_batches_take:
  "concat (map (batch_at xs) [0..<m]) = take (m * batchSize) xs"
proof (induction m)
  case 0
  show ?case by simp
next
  case (Suc m)
  have "take (m * batchSize) xs @ take batchSize (drop (m * batchSize) xs) = take (m * batchSize + batchSize) xs"
    by (simp add: take_add)
  then show ?case using Suc by (simp add: batch_at_def add.commute)
qed
lemma concat_batches: "concat (map (batch_at xs) [0..<batch_count (length xs)]) = xs"
proof -
  have "length xs \<le> batch_count (length xs) * batchSize"
    using batch_count_le [of "length xs" "batch_count (length xs)"] by simp
  then show ?thesis by (simp add: concat_batches_take)
qed

lemma batch_at_bounds:
  assumes "k < batch_count (length xs)"
  shows "length (batch_at xs k) \<le> batchSize" and "batch_at xs k \<noteq> []"
proof -
  show "length (batch_at xs k) \<le> batchSize" by (simp add: batch_at_def)
  have "k * batchSize < length xs" using assms batch_count_le [of "length xs" k] by simp
  then show "batch_at xs k \<noteq> []" by (simp add: batch_at_def batchSize_def)
qed



lemma issued_run:
  "issued (matchSNPsInBatches db gs) = map (\<lambda>k. SelectIn (map rsid (batch_at gs k))) [0..<batch_count (length gs)]"
  using match_loop_run [of db gs 0] by (simp add: matchSNPsInBatches_def)

lemma ticks_run:
  "ticks (matchSNPsInBatches db gs) = map (\<lambda>k. (min (k * batchSize + batchSize) (length gs), length gs)) [0..<batch_count (length gs)]"
  using match_loop_run [of db gs 0] by (simp add: matchSNPsInBatches_def)

lemma matches_run:
  "matches (matchSNPsInBatches db gs) = concat (map (\<lambda>k. batch_matches db (batch_at gs k)) [0..<batch_count (length gs)])"
  using match_loop_run [of db gs 0] by (simp add: matchSNPsInBatches_def)

section \<open>What one group contributes\<close>

lemma step_rows_Done: "step_rows b (foldr Row rows Done) ms = ms @ pair_rows b rows"
proof (induction rows arbitrary: ms)
  case Nil
  show ?case by (simp add: pair_rows_def List.map_filter_simps)
next
  case (Cons row rows)
  show ?case
    by (cases "find (\<lambda>g. rsid g = snp_rsid row) b")
       (simp_all add: Cons.IH pair_rows_def List.map_filter_simps)
qed

lemma step_rows_Throw: "step_rows b (foldr Row rows Throw) ms = ms @ pair_rows b rows"
proof (induction rows arbitrary: ms)
  case Nil
  show ?case by (simp add: pair_rows_def List.map_filter_simps)
next
  case (Cons row rows)
  show ?case
    by (cases "find (\<lambda>g. rsid g = snp_rsid row) b")
       (simp_all add: Cons.IH pair_rows_def List.map_filter_simps)
qed

lemma batch_matches_rows:
  "batch_matches db b =
     pair_rows b
       (case faults db (SelectIn (map rsid b)) of
          None \<Rightarrow> filter (\<lambda>r. snp_rsid r \<in> rsid ` set b) (snps db)
        | Some k \<Rightarrow> take k (filter (\<lambda>r. snp_rsid r \<in> rsid ` set b) (snps db)))"
  by (cases "faults db (SelectIn (map rsid b))")
     (simp_all add: batch_matches_def prepare_def step_rows_Done step_rows_Throw)

lemma find_rsid_Some:
  assumes "k \<in> rsid ` set b"
  shows "\<exists>g. find (\<lambda>g. rsid g = k) b = Some g \<and> g \<in> set b \<and> rsid g = k"
proof (cases "find (\<lambda>g. rsid g = k) b")
  case None
  then show ?thesis using assms by (auto simp: find_None_iff)
next
  case (Some g)
  then show ?thesis by (auto simp: find_Some_iff)
qed

lemma pair_rows_all:
  assumes "\<forall>r \<in> set rows. snp_rsid r \<in> rsid ` set b"
  shows "pair_rows b rows = map (\<lambda>row. with_snpData (the (find (\<lambda>g. rsid g = snp_rsid row) b)) row) rows"
  using assms
proof (induction rows)
  case Nil
  show ?case by (simp add: pair_rows_def List.map_filter_simps)
next
  case (Cons row rows)
  then obtain g where "find (\<lambda>g. rsid g = snp_rsid row) b = Some g"
    using find_rsid_Some [of "snp_rsid row" b] by auto
  then show ?case using Cons by (simp add: pair_rows_def List.map_filter_simps)
qed

lemma length_pair_rows:
  assumes "\<forall>r \<in> set rows. snp_rsid r \<in> rsid ` set b"
  shows "length (pair_rows b rows) = length rows"
  by (simp add: pair_rows_all [OF assms])

lemma length_filter_keys:
  assumes "distinct (map f xs)"
  shows "length (filter (\<lambda>x. f x \<in> K) xs) = card (K \<inter> f ` set xs)"
proof -
  have d: "distinct (map f (filter (\<lambda>x. f x \<in> K) xs))"
    using assms by (rule distinct_map_filter)
  have "length (filter (\<lambda>x. f x \<in> K) xs) = length (map f (filter (\<lambda>x. f x \<in> K) xs))" by simp
  also have "\<dots> = card (set (map f (filter (\<lambda>x. f x \<in> K) xs)))"
    using d by (rule distinct_card [symmetric])
  also have "set (map f (filter (\<lambda>x. f x \<in> K) xs)) = K \<inter> f ` set xs" by auto
  finally show ?thesis .
qed

lemma pair_rows_sound:
  assumes "m \<in> set (pair_rows b rows)"
  shows "\<exists>g row. g \<in> set b \<and> row \<in> set rows \<and> rsid g = snp_rsid row \<and> m = with_snpData g row"
proof -
  from assms obtain row g where row: "row \<in> set rows"
      and f: "find (\<lambda>g. rsid g = snp_rsid row) b = Some g" and m: "m = with_snpData g row"
    by (auto simp: pair_rows_def List.map_filter_def)
  from f have "g \<in> set b" "rsid g = snp_rsid row" by (auto simp: find_Some_iff)
  with row m show ?thesis by blast
qed

lemma no_faults_None: "faults db = no_faults \<Longrightarrow> faults db q = None"
  by (simp add: no_faults_def)

lemma single_batch_count: "0 < n \<Longrightarrow> n \<le> 500 \<Longrightarrow> batch_count n = 1"
  by (simp add: batch_count_def batchSize_def)

lemma single_batch_at: "length xs \<le> 500 \<Longrightarrow> batch_at xs 0 = xs"
  by (simp add: batch_at_def batchSize_def)

lemma matches_single_batch:
  assumes "length gs \<le> 500"
  shows "matches (matchSNPsInBatches db gs) = batch_matches db gs"
proof (cases "gs = []")
  case True
  then show ?thesis
    by (simp add: matches_run batch_count_def batchSize_def batch_matches_rows
        pair_rows_def List.map_filter_simps split: option.split)
next
  case False
  then have "batch_count (length gs) = 1" using assms by (simp add: single_batch_count)
  then show ?thesis using assms by (simp add: matches_run single_batch_at)
qed

lemma in_some_batch:
  assumes "g \<in> set gs"
  shows "\<exists>k < batch_count (length gs). g \<in> set (batch_at gs k)"
proof -
  have "g \<in> set (concat (map (batch_at gs) [0..<batch_count (length gs)]))"
    using assms by (simp only: concat_batches)
  then show ?thesis by auto
qed

lemma batch_subset: "set (batch_at gs k) \<subseteq> set gs"
  unfolding batch_at_def by (meson set_take_subset set_drop_subset subset_trans)

section \<open>Which keys are matched\<close>

lemma in_map_filter: "y \<in> set (List.map_filter f xs) \<longleftrightarrow> (\<exists>x \<in> set xs. f x = Some y)"
proof (induction xs)
  case Nil
  show ?case by (simp add: List.map_filter_simps)
next
  case (Cons x xs)
  show ?case
  proof (cases "f x")
    case None
    then show ?thesis using Cons by (simp add: List.map_filter_simps)
  next
    case (Some z)
    then show ?thesis using Cons by (auto simp add: List.map_filter_simps)
  qed
qed

lemma in_pair_rows:
  "m \<in> set (pair_rows b rows) \<longleftrightarrow>
     (\<exists>row \<in> set rows. \<exists>g. find (\<lambda>g. rsid g = snp_rsid row) b = Some g \<and> with_snpData g row = m)"
  unfolding pair_rows_def in_map_filter map_option_eq_Some ..

lemma lower_idem: "lower (lower c) = lower c"
proof (cases "65 \<le> (of_char c :: nat) \<and> (of_char c :: nat) \<le> 90")
  case True
  then have "(of_char (char_of (of_char c + 32 :: nat)) :: nat) = of_char c + 32"
    by simp
  then show ?thesis using True by (simp add: lower_def Let_def)
next
  case False
  then show ?thesis by (auto simp: lower_def Let_def)
qed

lemma toLowerCase_idem: "toLowerCase (toLowerCase s) = toLowerCase s"
  by (simp add: toLowerCase_def lower_idem)

lemma parse_line_lower:
  assumes "\<forall>g \<in> set (genotypes acc). rsid g = toLowerCase (rsid g)"
  shows "\<forall>g \<in> set (genotypes (parse_line i raw acc)). rsid g = toLowerCase (rsid g)"
  using assms by (auto simp: parse_line_def Let_def toLowerCase_idem)

lemma parse_lines_lower:
  assumes "\<forall>g \<in> set (genotypes acc). rsid g = toLowerCase (rsid g)"
  shows "\<forall>g \<in> set (genotypes (parse_lines i ls acc)). rsid g = toLowerCase (rsid g)"
  using assms
proof (induction ls arbitrary: i acc)
  case Nil
  then show ?case by simp
next
  case (Cons l ls)
  show ?case using Cons.IH [OF parse_line_lower [OF Cons.prems]] by simp
qed

lemma parsed_keys_lower:
  "\<forall>g \<in> set (genotypes (parse23andMeFile fileContent)). rsid g = toLowerCase (rsid g)"
  unfolding parse23andMeFile_def Let_def by (rule parse_lines_lower) simp

lemma matches_sound:
  assumes "m \<in> set (matches (matchSNPsInBatches db gs))"
  shows "\<exists>g row. g \<in> set gs \<and> row \<in> set (snps db) \<and> rsid g = snp_rsid row \<and> m = with_snpData g row"
proof -
  from assms obtain k where m: "m \<in> set (batch_matches db (batch_at gs k))"
    unfolding matches_run set_concat set_map by blast
  let ?rows = "filter (\<lambda>r. snp_rsid r \<in> rsid ` set (batch_at gs k)) (snps db)"
  have "\<exists>rows. set rows \<subseteq> set ?rows \<and> m \<in> set (pair_rows (batch_at gs k) rows)"
  proof (cases "faults db (SelectIn (map rsid (batch_at gs k)))")
    case None
    then have "m \<in> set (pair_rows (batch_at gs k) ?rows)" using m by (simp add: batch_matches_rows)
    then show ?thesis by blast
  next
    case (Some a)
    then have "m \<in> set (pair_rows (batch_at gs k) (take a ?rows))"
      using m by (simp add: batch_matches_rows)
    moreover have "set (take a ?rows) \<subseteq> set ?rows" by (rule set_take_subset)
    ultimately show ?thesis by blast
  qed
  then obtain rows where "set rows \<subseteq> set ?rows" and "m \<in> set (pair_rows (batch_at gs k) rows)"
    by blast
  then obtain g row where "g \<in> set (batch_at gs k)" "row \<in> set rows" "rsid g = snp_rsid row"
      "m = with_snpData g row"
    using pair_rows_sound [of m "batch_at gs k" rows] by blast
  note gr = this
  have "g \<in> set gs" using gr(1) batch_subset [of gs k] by (rule subsetD [rotated])
  moreover have "row \<in> set ?rows" using gr(2) \<open>set rows \<subseteq> set ?rows\<close> by (rule subsetD [rotated])
  then have "row \<in> set (snps db)" by simp
  ultimately show ?thesis using gr(3,4) by blast
qed

lemma pair_rows_complete:
  assumes row: "row \<in> set rows" and g: "g \<in> set b" and key: "rsid g = snp_rsid row"
  shows "\<exists>m \<in> set (pair_rows b rows). snpData m = row \<and> rsid m = rsid g"
proof -
  have "snp_rsid row \<in> rsid ` set b" using key [symmetric] g by (rule image_eqI)
  then obtain g' where f: "find (\<lambda>g. rsid g = snp_rsid row) b = Some g'"
      and k: "rsid g' = snp_rsid row"
    using find_rsid_Some [of "snp_rsid row" b] by blast
  have "with_snpData g' row \<in> set (pair_rows b rows)"
    unfolding in_pair_rows using row f by blast
  moreover have "snpData (with_snpData g' row) = row"
    by (simp add: with_snpData_def)
  moreover have "rsid (with_snpData g' row) = rsid g"
    using k key by (simp add: with_snpData_def)
  ultimately show ?thesis by blast
qed

lemma matches_complete:
  assumes nf: "faults db = no_faults" and g: "g \<in> set gs" and row: "row \<in> set (snps db)"
    and key: "rsid g = snp_rsid row"
  shows "\<exists>m \<in> set (matches (matchSNPsInBatches db gs)). snpData m = row \<and> rsid m = rsid g"
proof -
  obtain k where k: "k < batch_count (length gs)" "g \<in> set (batch_at gs k)"
    using in_some_batch [OF g] by blast
  let ?rows = "filter (\<lambda>r. snp_rsid r \<in> rsid ` set (batch_at gs k)) (snps db)"
  have "snp_rsid row \<in> rsid ` set (batch_at gs k)" using key [symmetric] k(2) by (rule image_eqI)
  then have "row \<in> set ?rows" using row by simp
  then obtain m where m: "m \<in> set (pair_rows (batch_at gs k) ?rows)" "snpData m = row" "rsid m = rsid g"
    using pair_rows_complete [OF _ k(2) key] by blast
  have "batch_matches db (batch_at gs k) = pair_rows (batch_at gs k) ?rows"
    by (simp add: batch_matches_rows no_faults_None [OF nf])
  then have "m \<in> set (batch_matches db (batch_at gs k))" using m(1) by simp
  moreover have "k \<in> set [0..<batch_count (length gs)]" using k(1) by simp
  ultimately have "m \<in> set (matches (matchSNPsInBatches db gs))"
    unfolding matches_run set_concat set_map by blast
  then show ?thesis using m(2,3) by blast
qed

section \<open>Statements that throw during a search\<close>

lemma collect_rows_Throw: "collect_rows (foldr Row rows Throw) acc = Inl EngineFailure"
  by (induction rows arbitrary: acc) simp_all

lemma collect_rows_Done: "collect_rows (foldr Row rows Done) acc = Inr (acc @ rows)"
  by (induction rows arbitrary: acc) simp_all

lemma prepare_fault: "faults db q = Some n \<Longrightarrow> collect_rows (prepare db q) acc = Inl EngineFailure"
  by (cases "select_rows (snps db) q") (simp_all add: prepare_def collect_rows_Throw)

lemma prepare_count_fault: "faults db q = Some 0 \<Longrightarrow> count_total (prepare_count db q) = Inl EngineFailure"
  by (cases "count_rows (snps db) q") (simp_all add: prepare_count_def)

lemma count_total_error: "count_total c = Inl e \<Longrightarrow> e = EngineFailure"
  by (cases c) simp_all

lemma search_count_fault:
  assumes "faults db (CountWhere (fst (build_where f)) (snd (build_where f))) = Some 0"
  shows "searchSNPs (Some db) f = Inl EngineFailure"
  using prepare_count_fault [OF assms] by (simp add: searchSNPs_def Let_def)

lemma search_select_fault:
  assumes "faults db (SelectWhere (fst (build_where f))
             (snd (build_where f) @ [PNum (num_or (limit f) 50), PNum (num_or (offset f) 0)])) = Some n"
  shows "searchSNPs (Some db) f = Inl EngineFailure"
  using prepare_fault [OF assms, of "[]"]
  by (auto simp add: searchSNPs_def Let_def split: sum.split dest: count_total_error)

section \<open>A search on an engine that does not fail\<close>

lemma trim_Nil: "trim [] = []"
  by (simp add: trim_def)

lemma nonblank_iff: "nonblank x \<longleftrightarrow> (\<exists>s. x = Some s \<and> trim s \<noteq> [])"
  by (cases x) (auto simp: trim_Nil)

lemma truthy_iff: "truthy x \<longleftrightarrow> (\<exists>s. x = Some s \<and> s \<noteq> [])"
  by (cases x) auto

lemma build_where_conditions:
  "fst (build_where f) =
     (if nonblank (searchTerm f) then [SearchTermCond] else []) @
     (if truthy (chromosome f) then [ChromosomeCond] else []) @
     (if nonblank (gene f) then [GeneCond] else []) @
     (if truthy (clinicalSignificance f) then [ClinSigCond] else []) @
     (if nonblank (disease f) then [DiseaseCond] else [])"
  by (simp add: build_where_def push_def Let_def)

lemma build_where_params:
  "snd (build_where f) =
     (if nonblank (searchTerm f) then replicate 6 (PText (''%'' @ trim (the (searchTerm f)) @ ''%'')) else []) @
     (if truthy (chromosome f) then [PText (the (chromosome f))] else []) @
     (if nonblank (gene f) then replicate 3 (PText (''%'' @ trim (the (gene f)) @ ''%'')) else []) @
     (if truthy (clinicalSignificance f) then [PText (''%'' @ the (clinicalSignificance f) @ ''%'')] else []) @
     (if nonblank (disease f) then [PText (''%'' @ trim (the (disease f)) @ ''%'')] else [])"
  by (simp add: build_where_def push_def Let_def)

lemma build_where_arity: "length (snd (build_where f)) = where_arity (fst (build_where f))"
  by (simp add: build_where_conditions build_where_params where_arity_def)

lemma replicate_texts: "list_all is_text (replicate n (PText s))"
  by (induction n) simp_all

lemma build_where_texts: "list_all is_text (snd (build_where f))"
  by (simp add: build_where_params replicate_texts)

lemma build_where_page [simp]:
  "build_where (f\<lparr>limit := l\<rparr>) = build_where f" "build_where (f\<lparr>offset := off\<rparr>) = build_where f"
  by (simp_all add: prod_eq_iff build_where_conditions build_where_params)

lemma filtered_page [simp]:
  "filtered db (f\<lparr>limit := l\<rparr>) = filtered db f" "filtered db (f\<lparr>offset := off\<rparr>) = filtered db f"
  by (simp_all add: filtered_def)

lemma count_ok:
  assumes "faults db = no_faults"
  shows "count_total (prepare_count db (CountWhere (fst (build_where f)) (snd (build_where f)))) =
           Inr (int (length (filtered db f)))"
  using assms
  by (simp add: prepare_count_def build_where_arity build_where_texts no_faults_def filtered_def)

lemma select_ok:
  assumes "faults db = no_faults"
  shows "collect_rows (prepare db (SelectWhere (fst (build_where f)) (snd (build_where f) @ [PNum l, PNum off]))) [] =
           Inr (limit_offset l off (filtered db f))"
  using assms build_where_texts [of f]
  by (simp add: prepare_def build_where_arity [symmetric] no_faults_def filtered_def
      collect_rows_Done)

lemma search_ok:
  assumes "faults db = no_faults"
  shows "searchSNPs (Some db) f =
           Inr \<lparr>results = limit_offset (num_or (limit f) 50) (num_or (offset f) 0) (filtered db f),
                total_count = int (length (filtered db f))\<rparr>"
  by (simp add: searchSNPs_def Let_def count_ok [OF assms] select_ok [OF assms])

lemma replicate_6: "replicate 6 x = [x, x, x, x, x, x]"
  by (simp add: numeral_eq_Suc)

lemma replicate_3: "replicate 3 x = [x, x, x]"
  by (simp add: numeral_eq_Suc)

lemma where_holds_built:
  "where_holds (fst (build_where f)) (map text_of (snd (build_where f))) r \<longleftrightarrow>
     (nonblank (searchTerm f) \<longrightarrow>
        cond_holds SearchTermCond (replicate 6 (''%'' @ trim (the (searchTerm f)) @ ''%'')) r) \<and>
     (truthy (chromosome f) \<longrightarrow> cond_holds ChromosomeCond [the (chromosome f)] r) \<and>
     (nonblank (gene f) \<longrightarrow>
        cond_holds GeneCond (replicate 3 (''%'' @ trim (the (gene f)) @ ''%'')) r) \<and>
     (truthy (clinicalSignificance f) \<longrightarrow>
        cond_holds ClinSigCond [''%'' @ the (clinicalSignificance f) @ ''%''] r) \<and>
     (nonblank (disease f) \<longrightarrow>
        cond_holds DiseaseCond [''%'' @ trim (the (disease f)) @ ''%''] r)"
  unfolding build_where_conditions build_where_params map_append if_distrib [of "map text_of"]
  by (simp add: replicate_6 replicate_3 cong: if_cong)

lemma filtered_conj:
  "filtered db f =
     filter (\<lambda>r.
       (nonblank (searchTerm f) \<longrightarrow>
          cond_holds SearchTermCond (replicate 6 (''%'' @ trim (the (searchTerm f)) @ ''%'')) r) \<and>
       (truthy (chromosome f) \<longrightarrow> cond_holds ChromosomeCond [the (chromosome f)] r) \<and>
       (nonblank (gene f) \<longrightarrow>
          cond_holds GeneCond (replicate 3 (''%'' @ trim (the (gene f)) @ ''%'')) r) \<and>
       (truthy (clinicalSignificance f) \<longrightarrow>
          cond_holds ClinSigCond [''%'' @ the (clinicalSignificance f) @ ''%''] r) \<and>
       (nonblank (disease f) \<longrightarrow>
          cond_holds DiseaseCond [''%'' @ trim (the (disease f)) @ ''%''] r)) (snps db)"
  unfolding filtered_def where_holds_built ..

lemma filtered_no_criteria:
  assumes "\<not> nonblank (searchTerm f)" "\<not> truthy (chromosome f)" "\<not> nonblank (gene f)"
    "\<not> truthy (clinicalSignificance f)" "\<not> nonblank (disease f)"
  shows "filtered db f = snps db"
  using assms by (simp add: filtered_conj)

lemma limit_offset_first_page: "limit_offset 50 0 rows = take 50 rows"
  by (simp add: limit_offset_def)

lemma length_limit_offset: "0 \<le> l \<Longrightarrow> int (length (limit_offset l off rows)) \<le> l"
  by (simp add: limit_offset_def)

lemma limit_offset_beyond: "int (length rows) \<le> off \<Longrightarrow> limit_offset l off rows = []"
  by (simp add: limit_offset_def Let_def)

lemma num_or_falsy: "x = None \<or> x = Some (JNum 0) \<or> x = Some JNaN \<Longrightarrow> num_or x d = d"
  by auto

lemma search_limit_default:
  assumes "limit f = None \<or> limit f = Some (JNum 0) \<or> limit f = Some JNaN"
  shows "searchSNPs db f = searchSNPs db (f\<lparr>limit := Some (JNum 50)\<rparr>)"
  using num_or_falsy [OF assms, of 50] by (cases db) (simp_all add: searchSNPs_def Let_def split: sum.split)

lemma search_offset_default:
  assumes "offset f = None \<or> offset f = Some (JNum 0) \<or> offset f = Some JNaN"
  shows "searchSNPs db f = searchSNPs db (f\<lparr>offset := Some (JNum 0)\<rparr>)"
  using num_or_falsy [OF assms, of 0] by (cases db) (simp_all add: searchSNPs_def Let_def split: sum.split)

lemma mem_conditions:
  "SearchTermCond \<in> set (fst (build_where f)) \<longleftrightarrow> nonblank (searchTerm f)"
  "ChromosomeCond \<in> set (fst (build_where f)) \<longleftrightarrow> truthy (chromosome f)"
  "GeneCond \<in> set (fst (build_where f)) \<longleftrightarrow> nonblank (gene f)"
  "ClinSigCond \<in> set (fst (build_where f)) \<longleftrightarrow> truthy (clinicalSignificance f)"
  "DiseaseCond \<in> set (fst (build_where f)) \<longleftrightarrow> nonblank (disease f)"
  by (simp_all add: build_where_conditions)

lemma filtered_no_filters: "filtered db (no_filters\<lparr>limit := l, offset := off\<rparr>) = snps db"
  by (simp add: filtered_conj no_filters_def)

lemma filtered_no_filters_limit: "filtered db (no_filters\<lparr>limit := l\<rparr>) = snps db"
  by (simp add: filtered_conj no_filters_def)

lemma filtered_no_filters_plain: "filtered db no_filters = snps db"
  by (simp add: filtered_conj no_filters_def)

section \<open>The progress values\<close>

lemma min_step_mono: "i \<le> j \<Longrightarrow> min (i * batchSize + batchSize) n \<le> min (j * batchSize + batchSize) n"
  by (intro min.mono mult_le_mono1 add_le_mono) simp_all

lemma sorted_tick_counts: "sorted (map (\<lambda>k. min (k * batchSize + batchSize) n) [0..<m])"
proof -
  have "sorted_wrt (\<lambda>i j. min (i * batchSize + batchSize) n \<le> min (j * batchSize + batchSize) n) [0..<m]"
    by (rule sorted_wrt_mono_rel [OF _ sorted_upt]) (blast intro: min_step_mono)
  then show ?thesis by (simp add: sorted_map)
qed

lemma last_tick_count:
  assumes "0 < n"
  shows "min ((batch_count n - 1) * batchSize + batchSize) n = n"
proof -
  have "n \<le> batch_count n * batchSize" using batch_count_le [of n "batch_count n"] by simp
  moreover have "0 < batch_count n" using assms batch_count_le [of n 0] by simp
  ultimately have "n \<le> (batch_count n - 1) * batchSize + batchSize"
    by (cases "batch_count n") simp_all
  then show ?thesis by simp
qed

lemma early_tick_count:
  assumes "Suc k < batch_count n"
  shows "min (k * batchSize + batchSize) n \<noteq> n"
proof -
  have "\<not> n \<le> Suc k * batchSize" using assms batch_count_le [of n "Suc k"] by simp
  then show ?thesis by (simp add: add.commute)
qed

lemma final_tick_once:
  assumes "0 < n"
  shows "count_list (map (\<lambda>k. min (k * batchSize + batchSize) n) [0..<batch_count n]) n = 1"
proof -
  have pos: "0 < batch_count n" using assms batch_count_le [of n 0] by simp
  then obtain m where m: "batch_count n = Suc m" by (cases "batch_count n") simp_all
  have "n \<notin> set (map (\<lambda>k. min (k * batchSize + batchSize) n) [0..<m])"
  proof
    assume "n \<in> set (map (\<lambda>k. min (k * batchSize + batchSize) n) [0..<m])"
    then obtain k where k: "k < m" "min (k * batchSize + batchSize) n = n" by auto
    then show False using early_tick_count [of k n] m by simp
  qed
  then have "count_list (map (\<lambda>k. min (k * batchSize + batchSize) n) [0..<m]) n = 0"
    by (rule count_notin)
  moreover have "min (m * batchSize + batchSize) n = n"
    using last_tick_count [OF assms] m by simp
  ultimately show ?thesis by (simp add: m)
qed

section \<open>What a load leaves behind\<close>

lemma rejected_simps [simp]:
  "outcome (rejected e p) = Inl e" "db_after (rejected e p) = None" "progress (rejected e p) = p"
  by (simp_all add: rejected_def)

lemma load_rejected_db:
  assumes "outcome (loadDatabase env db0) = Inl e"
  shows "db_after (loadDatabase env db0) = None"
  using assms
  by (auto simp: loadDatabase_def Let_def split: if_splits option.splits prod.splits sum.splits)

lemma read_loop_Inr:
  assumes "fst (read_loop t c chunks n prog) = Inr (cs, m)"
  shows "\<exists>new. c = foldr Row new Done \<and> cs = chunks @ new \<and> m = n + length (concat new)"
  using assms
proof (induction c arbitrary: chunks n prog)
  case Done
  then show ?case by (intro exI [of _ "[]"]) simp
next
  case Throw
  then show ?case by simp
next
  case (Row v rest)
  from Row.prems obtain prog' where
    "fst (read_loop t rest (chunks @ [v]) (n + length v) prog') = Inr (cs, m)"
    by (simp add: Let_def split: if_splits)
  then obtain new where new: "rest = foldr Row new Done" "cs = (chunks @ [v]) @ new"
      "m = (n + length v) + length (concat new)"
    using Row.IH by blast
  show ?case by (intro exI [of _ "v # new"]) (simp add: new)
qed

lemma combine_fits:
  assumes "pos + length (concat cs) \<le> length buf"
  shows "combine cs buf pos =
           Some (take pos buf @ concat cs @ drop (pos + length (concat cs)) buf)"
  using assms
proof (induction cs arbitrary: buf pos)
  case Nil
  then show ?case by simp
next
  case (Cons c cs)
  let ?buf = "take pos buf @ c @ drop (pos + length c) buf"
  have fit: "pos + length c \<le> length buf" using Cons.prems by simp
  have len: "length ?buf = length buf" using fit by simp
  have "(pos + length c) + length (concat cs) \<le> length ?buf" using Cons.prems len by simp
  then have "combine cs ?buf (pos + length c) =
      Some (take (pos + length c) ?buf @ concat cs @
            drop ((pos + length c) + length (concat cs)) ?buf)"
    by (rule Cons.IH)
  moreover have "take (pos + length c) ?buf = take pos buf @ c" using fit by simp
  moreover have "drop ((pos + length c) + length (concat cs)) ?buf =
      drop (pos + length (concat (c # cs))) buf" using fit by (simp add: ac_simps)
  ultimately show ?case using fit by simp
qed

lemma combine_all: "combine cs (replicate (length (concat cs)) 0) 0 = Some (concat cs)"
  using combine_fits [of 0 cs "replicate (length (concat cs)) 0"] by simp

lemma load_resolved:
  assumes "db_after (loadDatabase env db0) = Some d"
  shows "outcome (loadDatabase env db0) = Inr () \<and>
         (\<exists>r chunks. fetch_response env = Some r \<and> ok r \<and> body r = Some (foldr Row chunks Done) \<and>
            new_Database env (concat chunks) = Some d)"
proof -
  from assms obtain r reader t cs m prog where
      r: "initSqlJs_ok env" "fetch_response env = Some r" "ok r" "body r = Some reader"
      and rl: "read_loop t reader [] 0 [0, 10, 30] = (Inr (cs, m), prog)"
      and rest: "\<exists>buf. combine cs (replicate m 0) 0 = Some buf \<and> new_Database env buf = Some d"
      and out: "outcome (loadDatabase env db0) = Inr ()"
    by (auto simp: loadDatabase_def Let_def split: if_splits option.splits prod.splits sum.splits)
  from rl have "fst (read_loop t reader [] 0 [0, 10, 30]) = Inr (cs, m)" by simp
  then obtain new where new: "reader = foldr Row new Done" "cs = [] @ new" "m = 0 + length (concat new)"
    using read_loop_Inr by blast
  then have "combine cs (replicate m 0) 0 = Some (concat new)" using combine_all [of new] by simp
  then have "new_Database env (concat new) = Some d" using rest by auto
  then show ?thesis using r new out by auto
qed

section \<open>C3: one query per group of at most 500 keys\<close>

text \<open>
  C3. For every list of keys and every database, the matcher prepares exactly
  \<open>\<lceil>n / 500\<rceil>\<close> statements, the \<open>k\<close>-th one binding the keys
  \<open>keys[500 k : 500 k + 500)\<close> in input order; these groups are non-empty, hold at most
  500 keys and together are the input. For 1200 keys the three statements bind
  \<open>keys[0:500)\<close>, \<open>keys[500:1000)\<close> and \<open>keys[1000:1200)\<close>.
\<close>

theorem C3_query_per_group:
  "issued (matchSNPsInBatches database gs) =
     map (\<lambda>k. SelectIn (map rsid (slice gs (k * 500) (k * 500 + 500))))
       [0..<nat \<lceil>real (length gs) / 500\<rceil>]
   \<and> length (issued (matchSNPsInBatches database gs)) = nat \<lceil>real (length gs) / 500\<rceil>
   \<and> concat (map (\<lambda>k. slice gs (k * 500) (k * 500 + 500)) [0..<nat \<lceil>real (length gs) / 500\<rceil>]) = gs
   \<and> (\<forall>k < nat \<lceil>real (length gs) / 500\<rceil>.
        slice gs (k * 500) (k * 500 + 500) \<noteq> [] \<and> length (slice gs (k * 500) (k * 500 + 500)) \<le> 500)
   \<and> (length gs = 1200 \<longrightarrow>
        issued (matchSNPsInBatches database gs) =
          [SelectIn (map rsid (slice gs 0 500)), SelectIn (map rsid (slice gs 500 1000)),
           SelectIn (map rsid (slice gs 1000 1200))])"
proof (intro conjI allI impI)
  show a: "issued (matchSNPsInBatches database gs) =
     map (\<lambda>k. SelectIn (map rsid (slice gs (k * 500) (k * 500 + 500))))
       [0..<nat \<lceil>real (length gs) / 500\<rceil>]"
    by (simp only: issued_run ceil_batch_count batch_at_slice)
  show "length (issued (matchSNPsInBatches database gs)) = nat \<lceil>real (length gs) / 500\<rceil>"
    by (simp only: issued_run ceil_batch_count length_map length_upt minus_nat.diff_0)
  show "concat (map (\<lambda>k. slice gs (k * 500) (k * 500 + 500)) [0..<nat \<lceil>real (length gs) / 500\<rceil>]) = gs"
    using concat_batches [of gs] by (simp only: ceil_batch_count batch_at_slice [abs_def])
  show "slice gs (k * 500) (k * 500 + 500) \<noteq> []" if "k < nat \<lceil>real (length gs) / 500\<rceil>" for k
    using that batch_at_bounds(2) [of k gs] by (simp add: ceil_batch_count batch_at_slice)
  show "length (slice gs (k * 500) (k * 500 + 500)) \<le> 500" if "k < nat \<lceil>real (length gs) / 500\<rceil>" for k
    using batch_at_bounds(1) [of k gs] that by (simp add: ceil_batch_count batch_at_slice batchSize_def)
  show "issued (matchSNPsInBatches database gs) =
          [SelectIn (map rsid (slice gs 0 500)), SelectIn (map rsid (slice gs 500 1000)),
           SelectIn (map rsid (slice gs 1000 1200))]" if n: "length gs = 1200"
  proof -
    have c: "batch_count (length gs) = 3" by (simp add: n batch_count_def batchSize_def)
    have u: "[0..<3] = [0, 1, 2::nat]" by code_simp
    have "slice gs 1000 1500 = slice gs 1000 1200" by (simp add: slice_def n)
    then show ?thesis by (simp add: issued_run c u batch_at_slice)
  qed
qed

text \<open>The statement at 1200 keys.\<close>

theorem C3_query_per_group_witness:
  "length (replicate 1200 (mk_key ''rs1'')) = 1200 \<and>
   issued (matchSNPsInBatches db_three (replicate 1200 (mk_key ''rs1''))) =
     [SelectIn (map rsid (slice (replicate 1200 (mk_key ''rs1'')) 0 500)),
      SelectIn (map rsid (slice (replicate 1200 (mk_key ''rs1'')) 500 1000)),
      SelectIn (map rsid (slice (replicate 1200 (mk_key ''rs1'')) 1000 1200))]"
proof -
  have n: "length (replicate 1200 (mk_key ''rs1'')) = 1200" by (rule length_replicate)
  show ?thesis
    using n C3_query_per_group [of db_three "replicate 1200 (mk_key ''rs1'')"] by blast
qed

section \<open>C6: the progress callbacks\<close>

text \<open>
  C6, as stated, at the empty input: no callback is made at all, so the value
  \<open>keys.length = 0\<close> is reported zero times, not exactly once.
\<close>

theorem C6_empty_input_counterexample:
  "\<not> (count_list (map fst (ticks (matchSNPsInBatches db_three []))) (length ([] :: UserGenotype list)) = 1)"
  by (simp add: ticks_run batch_count_def batchSize_def)

text \<open>
  C6, amended. For every list of keys and every database (whether or not statements fail),
  \<open>onProgress\<close> is called once after each group, the \<open>k\<close>-th call reporting
  \<open>(min(500 k + 500, n), n)\<close>, the number of keys considered so far; the reported counts are
  non-decreasing; and when the input is not empty the last call reports \<open>(n, n)\<close> and
  \<open>n\<close> is reported exactly once.
\<close>

theorem C6_progress_ticks:
  "ticks (matchSNPsInBatches database gs) =
     map (\<lambda>k. (min (k * 500 + 500) (length gs), length gs)) [0..<nat \<lceil>real (length gs) / 500\<rceil>]
   \<and> length (ticks (matchSNPsInBatches database gs)) = length (issued (matchSNPsInBatches database gs))
   \<and> sorted (map fst (ticks (matchSNPsInBatches database gs)))
   \<and> (gs \<noteq> [] \<longrightarrow>
        last (ticks (matchSNPsInBatches database gs)) = (length gs, length gs) \<and>
        count_list (map fst (ticks (matchSNPsInBatches database gs))) (length gs) = 1)"
proof (intro conjI impI)
  have fsts: "map fst (ticks (matchSNPsInBatches database gs)) =
      map (\<lambda>k. min (k * batchSize + batchSize) (length gs)) [0..<batch_count (length gs)]"
    by (simp add: ticks_run comp_def)
  show "ticks (matchSNPsInBatches database gs) =
     map (\<lambda>k. (min (k * 500 + 500) (length gs), length gs)) [0..<nat \<lceil>real (length gs) / 500\<rceil>]"
    by (simp add: ticks_run ceil_batch_count batchSize_def)
  show "length (ticks (matchSNPsInBatches database gs)) = length (issued (matchSNPsInBatches database gs))"
    by (simp add: ticks_run issued_run)
  show "sorted (map fst (ticks (matchSNPsInBatches database gs)))"
    unfolding fsts by (rule sorted_tick_counts)
  show "count_list (map fst (ticks (matchSNPsInBatches database gs))) (length gs) = 1" if "gs \<noteq> []"
    unfolding fsts using that by (intro final_tick_once) simp
  show "last (ticks (matchSNPsInBatches database gs)) = (length gs, length gs)" if "gs \<noteq> []"
  proof -
    have n: "0 < length gs" using that by simp
    then have pos: "0 < batch_count (length gs)" using batch_count_le [of "length gs" 0] by simp
    then have ne: "[0..<batch_count (length gs)] \<noteq> []" by simp
    have "last [0..<batch_count (length gs)] = batch_count (length gs) - 1"
      using pos by (cases "batch_count (length gs)") simp_all
    then show ?thesis
      using last_tick_count [OF n] by (simp add: ticks_run last_map [OF ne])
  qed
qed

text \<open>The statement at three keys: one call, reporting \<open>(3, 3)\<close>.\<close>

theorem C6_progress_ticks_witness:
  "[mk_key ''rs1'', mk_key ''rs4'', mk_key ''rs1''] \<noteq> [] \<and>
   last (ticks (matchSNPsInBatches db_three [mk_key ''rs1'', mk_key ''rs4'', mk_key ''rs1''])) = (3, 3) \<and>
   count_list (map fst (ticks (matchSNPsInBatches db_three [mk_key ''rs1'', mk_key ''rs4'', mk_key ''rs1'']))) 3 = 1"
  using C6_progress_ticks [of db_three "[mk_key ''rs1'', mk_key ''rs4'', mk_key ''rs1'']"] by simp

section \<open>C10: the empty input\<close>

text \<open>
  C10. With a database loaded, \<open>matchSNPs\<close> on the empty list of keys returns no match,
  calls \<open>onProgress\<close> zero times (no \<open>(0, 0)\<close> call) and prepares no statement.
\<close>

theorem C10_empty_input:
  "matchSNPs (Some database) [] = Inr \<lparr>matches = [], ticks = [], issued = []\<rparr>"
  by (simp add: matchSNPs_def matchSNPsInBatches_def match_loop.simps)

text \<open>The statement for the three-row database.\<close>

theorem C10_empty_input_witness:
  "matchSNPs (Some db_three) [] = Inr \<lparr>matches = [], ticks = [], issued = []\<rparr>"
  by (rule C10_empty_input)

section \<open>C1: a key repeated in the input\<close>

text \<open>
  C1, as stated, on the records \<open>rs1, rs2, rs3\<close> with the keys \<open>rs1, rs4, rs1\<close>: the
  statement returns the row of \<open>rs1\<close> once and \<open>batch.find\<close> pairs it with the first
  \<open>rs1\<close> key only, so the result does not have 2 entries.
\<close>

theorem C1_duplicate_key_counterexample:
  "\<not> (length (matches (matchSNPsInBatches db_three
          [mk_key ''rs1'', mk_key ''rs4'', mk_key ''rs1''])) = 2)"
  by (simp add: matches_single_batch batch_matches_rows db_three_def no_faults_def
      mk_key_def mk_row_def pair_rows_def List.map_filter_simps)

text \<open>
  C1, amended. When no statement fails, every row a group's statement returns yields exactly
  one match, pairing the row with the first key of that group that has the row's identifier;
  the result is the concatenation over the groups. A key repeated inside one group therefore
  adds nothing: for an input of at most 500 keys and a table with distinct identifiers, the
  number of matches is the number of distinct input keys present in the table.
\<close>

theorem C1_first_key_per_row:
  "(faults database = no_faults \<longrightarrow>
      matches (matchSNPsInBatches database gs) =
        concat (map (\<lambda>k. pair_rows (slice gs (k * 500) (k * 500 + 500))
                      (filter (\<lambda>r. snp_rsid r \<in> rsid ` set (slice gs (k * 500) (k * 500 + 500)))
                         (snps database)))
                 [0..<nat \<lceil>real (length gs) / 500\<rceil>]))
   \<and> (faults database = no_faults \<and> length gs \<le> 500 \<and> distinct (map snp_rsid (snps database)) \<longrightarrow>
        length (matches (matchSNPsInBatches database gs)) =
          card (rsid ` set gs \<inter> snp_rsid ` set (snps database)))"
proof (intro conjI impI)
  assume nf: "faults database = no_faults"
  show "matches (matchSNPsInBatches database gs) =
        concat (map (\<lambda>k. pair_rows (slice gs (k * 500) (k * 500 + 500))
                      (filter (\<lambda>r. snp_rsid r \<in> rsid ` set (slice gs (k * 500) (k * 500 + 500)))
                         (snps database)))
                 [0..<nat \<lceil>real (length gs) / 500\<rceil>])"
    by (simp add: matches_run batch_matches_rows no_faults_None [OF nf] ceil_batch_count
        batch_at_slice)
next
  assume a: "faults database = no_faults \<and> length gs \<le> 500 \<and> distinct (map snp_rsid (snps database))"
  let ?rows = "filter (\<lambda>r. snp_rsid r \<in> rsid ` set gs) (snps database)"
  have "matches (matchSNPsInBatches database gs) = pair_rows gs ?rows"
    using a by (simp add: matches_single_batch batch_matches_rows no_faults_def)
  moreover have "length (pair_rows gs ?rows) = length ?rows"
    by (rule length_pair_rows) simp
  moreover have "length ?rows = card (rsid ` set gs \<inter> snp_rsid ` set (snps database))"
    using a by (intro length_filter_keys) simp
  ultimately show "length (matches (matchSNPsInBatches database gs)) =
      card (rsid ` set gs \<inter> snp_rsid ` set (snps database))" by simp
qed

text \<open>The statement on \<open>rs1, rs2, rs3\<close> with the keys \<open>rs1, rs4, rs1\<close>: one match.\<close>

theorem C1_first_key_per_row_witness:
  "faults db_three = no_faults \<and>
   length [mk_key ''rs1'', mk_key ''rs4'', mk_key ''rs1''] \<le> 500 \<and>
   distinct (map snp_rsid (snps db_three)) \<and>
   length (matches (matchSNPsInBatches db_three [mk_key ''rs1'', mk_key ''rs4'', mk_key ''rs1''])) = 1"
proof -
  have h: "faults db_three = no_faults \<and>
      length [mk_key ''rs1'', mk_key ''rs4'', mk_key ''rs1''] \<le> 500 \<and>
      distinct (map snp_rsid (snps db_three))"
    by (simp add: db_three_def mk_row_def)
  have "card (rsid ` set [mk_key ''rs1'', mk_key ''rs4'', mk_key ''rs1''] \<inter>
          snp_rsid ` set (snps db_three)) = 1"
    by (simp add: db_three_def mk_row_def mk_key_def)
  moreover have "length (matches (matchSNPsInBatches db_three
          [mk_key ''rs1'', mk_key ''rs4'', mk_key ''rs1''])) =
      card (rsid ` set [mk_key ''rs1'', mk_key ''rs4'', mk_key ''rs1''] \<inter>
          snp_rsid ` set (snps db_three))"
    using h C1_first_key_per_row [of db_three "[mk_key ''rs1'', mk_key ''rs4'', mk_key ''rs1'']"]
    by blast
  ultimately show ?thesis using h by simp
qed

section \<open>C2: the case of a key\<close>

text \<open>
  C2, as stated, on a table holding \<open>rs123\<close> with the input key \<open>RS123\<close>: the statement
  binds \<open>RS123\<close>, and \<open>g.rsid === row.rsid\<close> compares the strings as they are; the
  matcher returns no match.
\<close>

theorem C2_mixed_case_key_counterexample:
  "matches (matchSNPsInBatches db_one [mk_key ''RS123'']) = []"
  by (simp add: matches_single_batch batch_matches_rows db_one_def no_faults_def
      mk_key_def mk_row_def pair_rows_def List.map_filter_simps)

text \<open>
  C2, amended. The matcher compares keys exactly: every match it returns pairs a key of the
  input with a row of the table that has the very same identifier, and when no statement
  fails every input key that is identical to a row's identifier is matched to that row. A
  mixed-case key is matched only because the file parser hands over lower-cased keys: every
  key in the result of \<open>parse23andMeFile\<close> is its own lower-case form.
\<close>

theorem C2_exact_key_match:
  "(\<forall>m \<in> set (matches (matchSNPsInBatches database gs)).
      rsid m = snp_rsid (snpData m) \<and> snpData m \<in> set (snps database) \<and>
      (\<exists>g \<in> set gs. m = with_snpData g (snpData m)))
   \<and> (faults database = no_faults \<and> g \<in> set gs \<and> row \<in> set (snps database) \<and>
        rsid g = snp_rsid row \<longrightarrow>
        (\<exists>m \<in> set (matches (matchSNPsInBatches database gs)). snpData m = row \<and> rsid m = rsid g))
   \<and> (\<forall>g \<in> set (genotypes (parse23andMeFile fileContent)). rsid g = toLowerCase (rsid g))"
proof (intro conjI ballI impI)
  fix m assume "m \<in> set (matches (matchSNPsInBatches database gs))"
  then obtain g row where gr: "g \<in> set gs" "row \<in> set (snps database)" "rsid g = snp_rsid row"
      "m = with_snpData g row"
    using matches_sound by blast
  show "rsid m = snp_rsid (snpData m)" using gr by (simp add: with_snpData_def)
  show "snpData m \<in> set (snps database)" using gr by (simp add: with_snpData_def)
  have "m = with_snpData g (snpData m)" using gr by (simp add: with_snpData_def)
  then show "\<exists>g \<in> set gs. m = with_snpData g (snpData m)" using gr(1) by blast
next
  assume "faults database = no_faults \<and> g \<in> set gs \<and> row \<in> set (snps database) \<and>
        rsid g = snp_rsid row"
  then show "\<exists>m \<in> set (matches (matchSNPsInBatches database gs)). snpData m = row \<and> rsid m = rsid g"
    using matches_complete [of database g gs row] by blast
next
  fix g assume "g \<in> set (genotypes (parse23andMeFile fileContent))"
  then show "rsid g = toLowerCase (rsid g)" using parsed_keys_lower by blast
qed

text \<open>
  The statement for the file line \<open>RS123 1 100 AA\<close> and a table holding \<open>rs123\<close>: the
  parser delivers the key \<open>rs123\<close>, which is matched.
\<close>

lemma parse_example:
  "genotypes (parse23andMeFile ''RS123 1 100 AA'') =
     [\<lparr>rsid = ''rs123'', ug_chromosome = ''1'', position = ''100'', genotype = ''AA''\<rparr>]"
  by code_simp

theorem C2_exact_key_match_witness:
  "faults db_one = no_faults \<and>
   mk_key ''rs123'' \<in> set (genotypes (parse23andMeFile ''RS123 1 100 AA'')) \<and>
   mk_row ''rs123'' \<in> set (snps db_one) \<and>
   rsid (mk_key ''rs123'') = snp_rsid (mk_row ''rs123'') \<and>
   (\<exists>m \<in> set (matches (matchSNPsInBatches db_one (genotypes (parse23andMeFile ''RS123 1 100 AA'')))).
      snpData m = mk_row ''rs123'' \<and> rsid m = rsid (mk_key ''rs123''))"
proof -
  have h: "faults db_one = no_faults \<and>
      mk_key ''rs123'' \<in> set (genotypes (parse23andMeFile ''RS123 1 100 AA'')) \<and>
      mk_row ''rs123'' \<in> set (snps db_one) \<and>
      rsid (mk_key ''rs123'') = snp_rsid (mk_row ''rs123'')"
    by (simp add: parse_example db_one_def mk_key_def mk_row_def)
  then show ?thesis
    using C2_exact_key_match [of db_one "genotypes (parse23andMeFile ''RS123 1 100 AA'')"
        "mk_key ''rs123''" "mk_row ''rs123''"]
    by blast
qed

section \<open>C7: a statement that fails\<close>

text \<open>
  C7, as stated, on an engine that throws on the second \<open>step\<close>: the group's statement
  fails, yet the match pushed for the first row before the throw stays in the result, so
  the failed group does not count as zero matches.
\<close>

theorem C7_partial_rows_counterexample:
  "faults db_faulty (SelectIn (map rsid [mk_key ''rs1'', mk_key ''rs2''])) = Some 1 \<and>
   matches (matchSNPsInBatches db_faulty [mk_key ''rs1'', mk_key ''rs2'']) =
     [with_snpData (mk_key ''rs1'') (mk_row ''rs1'')]"
  by (simp add: matches_single_batch batch_matches_rows db_faulty_def fail_after_one_def
      mk_key_def mk_row_def pair_rows_def List.map_filter_simps)

text \<open>
  C7, amended. Whatever statements fail, \<open>matchSNPs\<close> on a loaded database returns a
  result, prepares a statement for every group, and its matches are the concatenation of
  what each group contributes on its own. A group whose statement throws contributes the
  matches of the rows returned before the throw: none when it throws before the first row
  (as a failing \<open>prepare\<close> or \<open>bind\<close> does). A search, in contrast, rejects with the
  engine's error as soon as its count statement or its page statement throws.
\<close>

theorem C7_failure_handling:
  "(\<exists>run. matchSNPs (Some database) gs = Inr run)
   \<and> length (issued (matchSNPsInBatches database gs)) = nat \<lceil>real (length gs) / 500\<rceil>
   \<and> matches (matchSNPsInBatches database gs) =
       concat (map (\<lambda>k. batch_matches database (slice gs (k * 500) (k * 500 + 500)))
                 [0..<nat \<lceil>real (length gs) / 500\<rceil>])
   \<and> (faults database (SelectIn (map rsid b)) = Some 0 \<longrightarrow> batch_matches database b = [])
   \<and> (faults database (SelectIn (map rsid b)) = Some n \<longrightarrow>
        batch_matches database b =
          pair_rows b (take n (filter (\<lambda>r. snp_rsid r \<in> rsid ` set b) (snps database))))
   \<and> (faults database (SelectIn (map rsid b)) = None \<longrightarrow>
        batch_matches database b =
          pair_rows b (filter (\<lambda>r. snp_rsid r \<in> rsid ` set b) (snps database)))
   \<and> (faults database (CountWhere (fst (build_where f)) (snd (build_where f))) = Some 0 \<longrightarrow>
        searchSNPs (Some database) f = Inl EngineFailure)
   \<and> (faults database (SelectWhere (fst (build_where f))
          (snd (build_where f) @ [PNum (num_or (limit f) 50), PNum (num_or (offset f) 0)])) = Some n' \<longrightarrow>
        searchSNPs (Some database) f = Inl EngineFailure)"
proof (intro conjI impI)
  show "\<exists>run. matchSNPs (Some database) gs = Inr run" by (simp add: matchSNPs_def)
  show "length (issued (matchSNPsInBatches database gs)) = nat \<lceil>real (length gs) / 500\<rceil>"
    by (simp add: issued_run ceil_batch_count)
  show "matches (matchSNPsInBatches database gs) =
       concat (map (\<lambda>k. batch_matches database (slice gs (k * 500) (k * 500 + 500)))
                 [0..<nat \<lceil>real (length gs) / 500\<rceil>])"
    by (simp add: matches_run ceil_batch_count batch_at_slice)
  show "batch_matches database b = []" if "faults database (SelectIn (map rsid b)) = Some 0"
    using that by (simp add: batch_matches_rows pair_rows_def List.map_filter_simps)
  show "batch_matches database b =
          pair_rows b (take n (filter (\<lambda>r. snp_rsid r \<in> rsid ` set b) (snps database)))"
    if "faults database (SelectIn (map rsid b)) = Some n"
    using that by (simp add: batch_matches_rows)
  show "batch_matches database b =
          pair_rows b (filter (\<lambda>r. snp_rsid r \<in> rsid ` set b) (snps database))"
    if "faults database (SelectIn (map rsid b)) = None"
    using that by (simp add: batch_matches_rows)
  show "searchSNPs (Some database) f = Inl EngineFailure"
    if "faults database (CountWhere (fst (build_where f)) (snd (build_where f))) = Some 0"
    using that by (rule search_count_fault)
  show "searchSNPs (Some database) f = Inl EngineFailure"
    if "faults database (SelectWhere (fst (build_where f))
          (snd (build_where f) @ [PNum (num_or (limit f) 50), PNum (num_or (offset f) 0)])) = Some n'"
    using that by (rule search_select_fault)
qed

text \<open>
  The statement on an engine that throws at once, on one that throws on the second
  \<open>step\<close>, and on one that does not throw.
\<close>

theorem C7_failure_handling_witness:
  "faults db_down (SelectIn (map rsid [mk_key ''rs1''])) = Some 0 \<and>
   batch_matches db_down [mk_key ''rs1''] = [] \<and>
   faults db_faulty (SelectIn (map rsid [mk_key ''rs1'', mk_key ''rs2''])) = Some 1 \<and>
   batch_matches db_faulty [mk_key ''rs1'', mk_key ''rs2''] =
     pair_rows [mk_key ''rs1'', mk_key ''rs2'']
       (take 1 (filter (\<lambda>r. snp_rsid r \<in> rsid ` set [mk_key ''rs1'', mk_key ''rs2''])
          (snps db_faulty))) \<and>
   faults db_three (SelectIn (map rsid [mk_key ''rs1''])) = None \<and>
   batch_matches db_three [mk_key ''rs1''] =
     pair_rows [mk_key ''rs1'']
       (filter (\<lambda>r. snp_rsid r \<in> rsid ` set [mk_key ''rs1'']) (snps db_three)) \<and>
   faults db_down (CountWhere (fst (build_where no_filters)) (snd (build_where no_filters))) = Some 0 \<and>
   searchSNPs (Some db_down) no_filters = Inl EngineFailure \<and>
   faults db_faulty (SelectWhere (fst (build_where no_filters))
     (snd (build_where no_filters) @
      [PNum (num_or (limit no_filters) 50), PNum (num_or (offset no_filters) 0)])) = Some 1 \<and>
   searchSNPs (Some db_faulty) no_filters = Inl EngineFailure"
proof -
  have h1: "faults db_down (SelectIn (map rsid [mk_key ''rs1''])) = Some 0"
    by (simp add: db_down_def fail_at_once_def)
  have h2: "faults db_faulty (SelectIn (map rsid [mk_key ''rs1'', mk_key ''rs2''])) = Some 1"
    by (simp add: db_faulty_def fail_after_one_def)
  have h3: "faults db_three (SelectIn (map rsid [mk_key ''rs1''])) = None"
    by (simp add: db_three_def no_faults_def)
  have h4: "faults db_down (CountWhere (fst (build_where no_filters)) (snd (build_where no_filters))) = Some 0"
    by (simp add: db_down_def fail_at_once_def)
  have h5: "faults db_faulty (SelectWhere (fst (build_where no_filters))
     (snd (build_where no_filters) @
      [PNum (num_or (limit no_filters) 50), PNum (num_or (offset no_filters) 0)])) = Some 1"
    by (simp add: db_faulty_def fail_after_one_def)
  note a = C7_failure_handling [of db_down "[]" "[mk_key ''rs1'']" 0 no_filters 0]
  note b = C7_failure_handling [of db_faulty "[]" "[mk_key ''rs1'', mk_key ''rs2'']" 1 no_filters 1]
  note c = C7_failure_handling [of db_three "[]" "[mk_key ''rs1'']" 0 no_filters 0]
  have "batch_matches db_down [mk_key ''rs1''] = []" using a h1 by blast
  moreover have "batch_matches db_faulty [mk_key ''rs1'', mk_key ''rs2''] =
     pair_rows [mk_key ''rs1'', mk_key ''rs2'']
       (take 1 (filter (\<lambda>r. snp_rsid r \<in> rsid ` set [mk_key ''rs1'', mk_key ''rs2''])
          (snps db_faulty)))" using b h2 by blast
  moreover have "batch_matches db_three [mk_key ''rs1''] =
     pair_rows [mk_key ''rs1'']
       (filter (\<lambda>r. snp_rsid r \<in> rsid ` set [mk_key ''rs1'']) (snps db_three))"
    using c h3 by blast
  moreover have "searchSNPs (Some db_down) no_filters = Inl EngineFailure" using a h4 by blast
  moreover have "searchSNPs (Some db_faulty) no_filters = Inl EngineFailure" using b h5 by blast
  ultimately show ?thesis using h1 h2 h3 h4 h5 by blast
qed

section \<open>C4: which clauses a search has\<close>

text \<open>
  C4, as stated, for a location criterion made of one space: after trimming it is empty,
  yet \<open>if (filters.chromosome)\<close> tests the string as it is and the clause
  \<open>chromosome = ?\<close> is included.
\<close>

theorem C4_untrimmed_location_counterexample:
  "trim '' '' = [] \<and>
   ChromosomeCond \<in> set (fst (build_where (no_filters\<lparr>chromosome := Some '' ''\<rparr>)))"
  by (simp add: trim_def is_space_def mem_conditions no_filters_def)

text \<open>
  C4, amended. The WHERE clause holds, in this fixed order, the free-text clause, the
  location clause, the name clause, the category clause and the description clause, where
  the free-text, name and description clauses are included if and only if their criterion
  is present and non-empty after trimming, and the location and category clauses if and
  only if their criterion is present and not the empty string (they are not trimmed). An
  absent criterion contributes no clause, and the included clauses are combined with AND:
  when no statement fails, \<open>total\<close> counts the rows that satisfy every included clause.
  With no clause at all, \<open>total\<close> is the size of the table and \<open>results\<close> is a page of
  the table in storage order, the first 50 rows when \<open>limit\<close> and \<open>offset\<close> are absent.
\<close>

theorem C4_where_clauses:
  "fst (build_where f) =
     (if nonblank (searchTerm f) then [SearchTermCond] else []) @
     (if truthy (chromosome f) then [ChromosomeCond] else []) @
     (if nonblank (gene f) then [GeneCond] else []) @
     (if truthy (clinicalSignificance f) then [ClinSigCond] else []) @
     (if nonblank (disease f) then [DiseaseCond] else [])
   \<and> (SearchTermCond \<in> set (fst (build_where f)) \<longleftrightarrow> (\<exists>s. searchTerm f = Some s \<and> trim s \<noteq> []))
   \<and> (ChromosomeCond \<in> set (fst (build_where f)) \<longleftrightarrow> (\<exists>s. chromosome f = Some s \<and> s \<noteq> []))
   \<and> (GeneCond \<in> set (fst (build_where f)) \<longleftrightarrow> (\<exists>s. gene f = Some s \<and> trim s \<noteq> []))
   \<and> (ClinSigCond \<in> set (fst (build_where f)) \<longleftrightarrow> (\<exists>s. clinicalSignificance f = Some s \<and> s \<noteq> []))
   \<and> (DiseaseCond \<in> set (fst (build_where f)) \<longleftrightarrow> (\<exists>s. disease f = Some s \<and> trim s \<noteq> []))
   \<and> (faults database = no_faults \<longrightarrow>
        total_count (projr (searchSNPs (Some database) f)) =
          int (length (filter (\<lambda>r.
            (nonblank (searchTerm f) \<longrightarrow>
               cond_holds SearchTermCond (replicate 6 (''%'' @ trim (the (searchTerm f)) @ ''%'')) r) \<and>
            (truthy (chromosome f) \<longrightarrow> cond_holds ChromosomeCond [the (chromosome f)] r) \<and>
            (nonblank (gene f) \<longrightarrow>
               cond_holds GeneCond (replicate 3 (''%'' @ trim (the (gene f)) @ ''%'')) r) \<and>
            (truthy (clinicalSignificance f) \<longrightarrow>
               cond_holds ClinSigCond [''%'' @ the (clinicalSignificance f) @ ''%''] r) \<and>
            (nonblank (disease f) \<longrightarrow>
               cond_holds DiseaseCond [''%'' @ trim (the (disease f)) @ ''%''] r)) (snps database))))
   \<and> (faults database = no_faults \<and> fst (build_where f) = [] \<longrightarrow>
        searchSNPs (Some database) f =
          Inr \<lparr>results = limit_offset (num_or (limit f) 50) (num_or (offset f) 0) (snps database),
               total_count = int (length (snps database))\<rparr>)
   \<and> (faults database = no_faults \<and> fst (build_where f) = [] \<and> limit f = None \<and> offset f = None \<longrightarrow>
        searchSNPs (Some database) f =
          Inr \<lparr>results = take 50 (snps database), total_count = int (length (snps database))\<rparr>)"
proof (intro conjI impI)
  show "fst (build_where f) =
     (if nonblank (searchTerm f) then [SearchTermCond] else []) @
     (if truthy (chromosome f) then [ChromosomeCond] else []) @
     (if nonblank (gene f) then [GeneCond] else []) @
     (if truthy (clinicalSignificance f) then [ClinSigCond] else []) @
     (if nonblank (disease f) then [DiseaseCond] else [])"
    by (rule build_where_conditions)
  show "SearchTermCond \<in> set (fst (build_where f)) \<longleftrightarrow> (\<exists>s. searchTerm f = Some s \<and> trim s \<noteq> [])"
    by (simp only: mem_conditions nonblank_iff)
  show "ChromosomeCond \<in> set (fst (build_where f)) \<longleftrightarrow> (\<exists>s. chromosome f = Some s \<and> s \<noteq> [])"
    by (simp only: mem_conditions truthy_iff)
  show "GeneCond \<in> set (fst (build_where f)) \<longleftrightarrow> (\<exists>s. gene f = Some s \<and> trim s \<noteq> [])"
    by (simp only: mem_conditions nonblank_iff)
  show "ClinSigCond \<in> set (fst (build_where f)) \<longleftrightarrow> (\<exists>s. clinicalSignificance f = Some s \<and> s \<noteq> [])"
    by (simp only: mem_conditions truthy_iff)
  show "DiseaseCond \<in> set (fst (build_where f)) \<longleftrightarrow> (\<exists>s. disease f = Some s \<and> trim s \<noteq> [])"
    by (simp only: mem_conditions nonblank_iff)
next
  assume nf: "faults database = no_faults"
  show "total_count (projr (searchSNPs (Some database) f)) =
          int (length (filter (\<lambda>r.
            (nonblank (searchTerm f) \<longrightarrow>
               cond_holds SearchTermCond (replicate 6 (''%'' @ trim (the (searchTerm f)) @ ''%'')) r) \<and>
            (truthy (chromosome f) \<longrightarrow> cond_holds ChromosomeCond [the (chromosome f)] r) \<and>
            (nonblank (gene f) \<longrightarrow>
               cond_holds GeneCond (replicate 3 (''%'' @ trim (the (gene f)) @ ''%'')) r) \<and>
            (truthy (clinicalSignificance f) \<longrightarrow>
               cond_holds ClinSigCond [''%'' @ the (clinicalSignificance f) @ ''%''] r) \<and>
            (nonblank (disease f) \<longrightarrow>
               cond_holds DiseaseCond [''%'' @ trim (the (disease f)) @ ''%''] r)) (snps database)))"
    unfolding search_ok [OF nf] filtered_conj by simp
next
  assume a: "faults database = no_faults \<and> fst (build_where f) = []"
  then have none: "\<not> nonblank (searchTerm f)" "\<not> truthy (chromosome f)" "\<not> nonblank (gene f)"
      "\<not> truthy (clinicalSignificance f)" "\<not> nonblank (disease f)"
    using mem_conditions [of f] by simp_all
  show "searchSNPs (Some database) f =
          Inr \<lparr>results = limit_offset (num_or (limit f) 50) (num_or (offset f) 0) (snps database),
               total_count = int (length (snps database))\<rparr>"
    using a by (simp add: search_ok filtered_no_criteria [OF none])
next
  assume a: "faults database = no_faults \<and> fst (build_where f) = [] \<and> limit f = None \<and> offset f = None"
  then have none: "\<not> nonblank (searchTerm f)" "\<not> truthy (chromosome f)" "\<not> nonblank (gene f)"
      "\<not> truthy (clinicalSignificance f)" "\<not> nonblank (disease f)"
    using mem_conditions [of f] by simp_all
  show "searchSNPs (Some database) f =
          Inr \<lparr>results = take 50 (snps database), total_count = int (length (snps database))\<rparr>"
    using a by (simp add: search_ok filtered_no_criteria [OF none] limit_offset_first_page)
qed

text \<open>The statement for a search without any criterion on the three-row table.\<close>

lemma no_filters_conditions: "fst (build_where no_filters) = []"
  by (simp add: build_where_conditions no_filters_def)

theorem C4_where_clauses_witness:
  "faults db_three = no_faults \<and> fst (build_where no_filters) = [] \<and>
   limit no_filters = None \<and> offset no_filters = None \<and>
   searchSNPs (Some db_three) no_filters =
     Inr \<lparr>results = take 50 (snps db_three), total_count = int (length (snps db_three))\<rparr>"
proof -
  have h: "faults db_three = no_faults \<and> fst (build_where no_filters) = [] \<and>
      limit no_filters = None \<and> offset no_filters = None"
    by (simp add: no_filters_conditions) (simp add: db_three_def no_filters_def)
  then show ?thesis using C4_where_clauses [of no_filters db_three] by blast
qed

section \<open>C5: total and page\<close>

text \<open>
  C5, as stated, for \<open>limit = 0\<close> on a table of one row: \<open>filters.limit || 50\<close> turns the
  limit into 50 and the page holds the row, so \<open>results.length \<le> limit\<close> fails.
\<close>

theorem C5_limit_zero_counterexample:
  "\<not> (int (length (results (projr (searchSNPs (Some db_one) (no_filters\<lparr>limit := Some (JNum 0)\<rparr>)))))
        \<le> 0)"
proof -
  have nf: "faults db_one = no_faults" by (simp add: db_one_def)
  show ?thesis
    unfolding search_ok [OF nf] filtered_no_filters_limit
    by (simp add: limit_offset_def no_filters_def db_one_def)
qed

text \<open>
  C5, amended. When no statement fails, a search returns as \<open>total\<close> the number of rows
  that satisfy the WHERE clause, whatever \<open>limit\<close> and \<open>offset\<close> are, and as \<open>results\<close> the
  page of those rows that the effective limit and offset select. \<open>results.length\<close> is at
  most \<open>limit\<close> when \<open>limit\<close> is a positive number and at most 50 when \<open>limit\<close> is absent,
  \<open>0\<close> or \<open>NaN\<close>. When \<open>offset\<close> is a number that is at least \<open>total\<close>, \<open>results\<close> is empty
  and \<open>total\<close> is still the full count.
\<close>

theorem C5_total_and_page:
  "(faults database = no_faults \<longrightarrow>
      searchSNPs (Some database) f =
        Inr \<lparr>results = limit_offset (num_or (limit f) 50) (num_or (offset f) 0) (filtered database f),
             total_count = int (length (filtered database f))\<rparr>)
   \<and> (faults database = no_faults \<longrightarrow>
        total_count (projr (searchSNPs (Some database) (f\<lparr>limit := l, offset := off\<rparr>))) =
          total_count (projr (searchSNPs (Some database) f)))
   \<and> (faults database = no_faults \<and> limit f = Some (JNum n) \<and> 0 < n \<longrightarrow>
        int (length (results (projr (searchSNPs (Some database) f)))) \<le> n)
   \<and> (faults database = no_faults \<and>
        (limit f = None \<or> limit f = Some (JNum 0) \<or> limit f = Some JNaN) \<longrightarrow>
        length (results (projr (searchSNPs (Some database) f))) \<le> 50)
   \<and> (faults database = no_faults \<and> offset f = Some (JNum k) \<and>
        total_count (projr (searchSNPs (Some database) f)) \<le> k \<longrightarrow>
        results (projr (searchSNPs (Some database) f)) = [] \<and>
        total_count (projr (searchSNPs (Some database) f)) = int (length (filtered database f)))"
proof (intro conjI impI)
  assume nf: "faults database = no_faults"
  show "searchSNPs (Some database) f =
        Inr \<lparr>results = limit_offset (num_or (limit f) 50) (num_or (offset f) 0) (filtered database f),
             total_count = int (length (filtered database f))\<rparr>"
    by (rule search_ok [OF nf])
next
  assume nf: "faults database = no_faults"
  show "total_count (projr (searchSNPs (Some database) (f\<lparr>limit := l, offset := off\<rparr>))) =
          total_count (projr (searchSNPs (Some database) f))"
    by (simp add: search_ok [OF nf])
next
  assume a: "faults database = no_faults \<and> limit f = Some (JNum n) \<and> 0 < n"
  then have "num_or (limit f) 50 = n" by simp
  then show "int (length (results (projr (searchSNPs (Some database) f)))) \<le> n"
    using a length_limit_offset [of n "num_or (offset f) 0" "filtered database f"]
    by (simp add: search_ok)
next
  assume a: "faults database = no_faults \<and>
        (limit f = None \<or> limit f = Some (JNum 0) \<or> limit f = Some JNaN)"
  then have "num_or (limit f) 50 = 50" by (intro num_or_falsy) simp
  then show "length (results (projr (searchSNPs (Some database) f))) \<le> 50"
    using a length_limit_offset [of 50 "num_or (offset f) 0" "filtered database f"]
    by (simp add: search_ok)
next
  assume a: "faults database = no_faults \<and> offset f = Some (JNum k) \<and>
        total_count (projr (searchSNPs (Some database) f)) \<le> k"
  then have nf: "faults database = no_faults" by simp
  have le: "int (length (filtered database f)) \<le> k" using a by (simp add: search_ok [OF nf])
  have "int (length (filtered database f)) \<le> num_or (offset f) 0"
  proof (cases "k = 0")
    case True
    then show ?thesis using le a by simp
  next
    case False
    then show ?thesis using le a by simp
  qed
  then have "limit_offset (num_or (limit f) 50) (num_or (offset f) 0) (filtered database f) = []"
    by (rule limit_offset_beyond)
  then show "results (projr (searchSNPs (Some database) f)) = []" by (simp add: search_ok [OF nf])
  show "total_count (projr (searchSNPs (Some database) f)) = int (length (filtered database f))"
    by (simp add: search_ok [OF nf])
qed

text \<open>
  The statement on the three-row table, for \<open>limit = 2\<close> with \<open>offset = 5\<close> and for absent
  page parameters.
\<close>

theorem C5_total_and_page_witness:
  "faults db_three = no_faults \<and>
   limit (no_filters\<lparr>limit := Some (JNum 2), offset := Some (JNum 5)\<rparr>) = Some (JNum 2) \<and> (0::int) < 2 \<and>
   offset (no_filters\<lparr>limit := Some (JNum 2), offset := Some (JNum 5)\<rparr>) = Some (JNum 5) \<and>
   total_count (projr (searchSNPs (Some db_three)
      (no_filters\<lparr>limit := Some (JNum 2), offset := Some (JNum 5)\<rparr>))) \<le> 5 \<and>
   results (projr (searchSNPs (Some db_three)
      (no_filters\<lparr>limit := Some (JNum 2), offset := Some (JNum 5)\<rparr>))) = [] \<and>
   total_count (projr (searchSNPs (Some db_three)
      (no_filters\<lparr>limit := Some (JNum 2), offset := Some (JNum 5)\<rparr>))) = 3 \<and>
   limit no_filters = None \<and>
   length (results (projr (searchSNPs (Some db_three) no_filters))) \<le> 50"
proof -
  let ?f = "no_filters\<lparr>limit := Some (JNum 2), offset := Some (JNum 5)\<rparr>"
  have nf: "faults db_three = no_faults" by (simp add: db_three_def)
  have t: "total_count (projr (searchSNPs (Some db_three) ?f)) = 3"
    unfolding search_ok [OF nf] filtered_no_filters by (simp add: db_three_def)
  have h1: "faults db_three = no_faults \<and> offset ?f = Some (JNum 5) \<and>
      total_count (projr (searchSNPs (Some db_three) ?f)) \<le> 5"
    using nf t by simp
  have h2: "faults db_three = no_faults \<and>
      (limit no_filters = None \<or> limit no_filters = Some (JNum 0) \<or> limit no_filters = Some JNaN)"
    using nf by (simp add: no_filters_def)
  have "results (projr (searchSNPs (Some db_three) ?f)) = []"
    using h1 C5_total_and_page [of db_three ?f None None 2 5] by blast
  moreover have "length (results (projr (searchSNPs (Some db_three) no_filters))) \<le> 50"
    using h2 C5_total_and_page [of db_three no_filters None None 2 5] by blast
  ultimately show ?thesis using nf t by (simp add: no_filters_def)
qed

section \<open>C9: falsy page parameters\<close>

text \<open>
  C9. A \<open>limit\<close> that is absent, \<open>0\<close> or \<open>NaN\<close> gives the very same search as
  \<open>limit = 50\<close>, and an \<open>offset\<close> that is absent, \<open>0\<close> or \<open>NaN\<close> the same search as
  \<open>offset = 0\<close>. So with \<open>limit = 0\<close>, when no statement fails, \<open>results\<close> is the page of up
  to 50 rows after the offset, not an empty page.
\<close>

theorem C9_falsy_page_parameters:
  "((limit f = None \<or> limit f = Some (JNum 0) \<or> limit f = Some JNaN) \<longrightarrow>
      searchSNPs db f = searchSNPs db (f\<lparr>limit := Some (JNum 50)\<rparr>))
   \<and> ((offset f = None \<or> offset f = Some (JNum 0) \<or> offset f = Some JNaN) \<longrightarrow>
        searchSNPs db f = searchSNPs db (f\<lparr>offset := Some (JNum 0)\<rparr>))
   \<and> (faults database = no_faults \<and> limit f = Some (JNum 0) \<longrightarrow>
        results (projr (searchSNPs (Some database) f)) =
          take 50 (drop (nat (num_or (offset f) 0)) (filtered database f)))"
proof (intro conjI impI)
  assume "limit f = None \<or> limit f = Some (JNum 0) \<or> limit f = Some JNaN"
  then show "searchSNPs db f = searchSNPs db (f\<lparr>limit := Some (JNum 50)\<rparr>)"
    by (rule search_limit_default)
next
  assume "offset f = None \<or> offset f = Some (JNum 0) \<or> offset f = Some JNaN"
  then show "searchSNPs db f = searchSNPs db (f\<lparr>offset := Some (JNum 0)\<rparr>)"
    by (rule search_offset_default)
next
  assume a: "faults database = no_faults \<and> limit f = Some (JNum 0)"
  then show "results (projr (searchSNPs (Some database) f)) =
          take 50 (drop (nat (num_or (offset f) 0)) (filtered database f))"
    by (simp add: search_ok limit_offset_def)
qed

text \<open>The statement for \<open>limit = 0\<close> on the three-row table: all three rows come back.\<close>

theorem C9_falsy_page_parameters_witness:
  "faults db_three = no_faults \<and>
   limit (no_filters\<lparr>limit := Some (JNum 0)\<rparr>) = Some (JNum 0) \<and>
   results (projr (searchSNPs (Some db_three) (no_filters\<lparr>limit := Some (JNum 0)\<rparr>))) =
     [mk_row ''rs1'', mk_row ''rs2'', mk_row ''rs3'']"
proof -
  let ?f = "no_filters\<lparr>limit := Some (JNum 0)\<rparr>"
  have h: "faults db_three = no_faults \<and> limit ?f = Some (JNum 0)" by (simp add: db_three_def)
  have "results (projr (searchSNPs (Some db_three) ?f)) =
      take 50 (drop (nat (num_or (offset ?f) 0)) (filtered db_three ?f))"
    using h C9_falsy_page_parameters [of ?f "Some db_three" db_three] by blast
  moreover have "num_or (offset ?f) 0 = 0" by (simp add: no_filters_def)
  moreover have "filtered db_three ?f = [mk_row ''rs1'', mk_row ''rs2'', mk_row ''rs3'']"
    by (simp add: filtered_no_filters_plain db_three_def)
  ultimately show ?thesis using h by simp
qed

section \<open>C8: a load that fails\<close>

text \<open>
  C8. \<open>loadDatabase\<close> rejects with \<open>Failed to load database: <status text>\<close> when the
  response is not \<open>ok\<close>, and with \<open>Response body is not readable\<close> when the response has
  no body to read from. Whenever it rejects, at whatever phase and whatever the global
  \<open>db\<close> was before, \<open>db\<close> is \<open>null\<close> afterwards, so that \<open>matchSNPs\<close> and \<open>searchSNPs\<close>
  reject with \<open>Database not loaded\<close>. And \<open>db\<close> is only ever set by a load that resolved, to
  the database the engine built from the concatenation of all chunks of the body.
\<close>

theorem C8_load_failure:
  "(initSqlJs_ok env \<and> fetch_response env = Some r \<and> \<not> ok r \<longrightarrow>
      outcome (loadDatabase env db0) = Inl (FailedToLoadDatabase (statusText r)))
   \<and> (initSqlJs_ok env \<and> fetch_response env = Some r \<and> ok r \<and> body r = None \<longrightarrow>
        outcome (loadDatabase env db0) = Inl BodyNotReadable)
   \<and> (outcome (loadDatabase env db0) = Inl e \<longrightarrow>
        db_after (loadDatabase env db0) = None \<and>
        matchSNPs (db_after (loadDatabase env db0)) gs = Inl DatabaseNotLoaded \<and>
        searchSNPs (db_after (loadDatabase env db0)) f = Inl DatabaseNotLoaded)
   \<and> (db_after (loadDatabase env db0) = Some d \<longrightarrow>
        outcome (loadDatabase env db0) = Inr () \<and>
        (\<exists>r' chunks. fetch_response env = Some r' \<and> ok r' \<and>
           body r' = Some (foldr Row chunks Done) \<and> new_Database env (concat chunks) = Some d))"
proof (intro conjI impI)
  assume "initSqlJs_ok env \<and> fetch_response env = Some r \<and> \<not> ok r"
  then show "outcome (loadDatabase env db0) = Inl (FailedToLoadDatabase (statusText r))"
    by (simp add: loadDatabase_def)
next
  assume "initSqlJs_ok env \<and> fetch_response env = Some r \<and> ok r \<and> body r = None"
  then show "outcome (loadDatabase env db0) = Inl BodyNotReadable"
    by (simp add: loadDatabase_def Let_def)
next
  assume "outcome (loadDatabase env db0) = Inl e"
  then have none: "db_after (loadDatabase env db0) = None" by (rule load_rejected_db)
  show "db_after (loadDatabase env db0) = None" by (rule none)
  show "matchSNPs (db_after (loadDatabase env db0)) gs = Inl DatabaseNotLoaded"
    by (simp add: none matchSNPs_def)
  show "searchSNPs (db_after (loadDatabase env db0)) f = Inl DatabaseNotLoaded"
    by (simp add: none searchSNPs_def)
next
  assume d: "db_after (loadDatabase env db0) = Some d"
  show "outcome (loadDatabase env db0) = Inr ()" using load_resolved [OF d] by blast
  show "\<exists>r' chunks. fetch_response env = Some r' \<and> ok r' \<and>
           body r' = Some (foldr Row chunks Done) \<and> new_Database env (concat chunks) = Some d"
    using load_resolved [OF d] by blast
qed

text \<open>
  The statement for a 404 response arriving while a database is loaded, for a response
  without a body, and for a body of two chunks.
\<close>

lemma parse_three: "parseInt ''3'' = JNum 3"
  by (simp add: parseInt_def is_space_def is_digit_def)

lemma load_two_chunks:
  "loadDatabase (env_of resp_two_chunks) db0 =
     \<lparr>outcome = Inr (), db_after = Some db_three,
      progress = [0, 10, 30, 30 + 2 / 3 * 50, 80, 85, 90, 100]\<rparr>"
  by (simp add: loadDatabase_def env_of_def resp_two_chunks_def parse_three open_image_def
      numeral_eq_Suc)

theorem C8_load_failure_witness:
  "initSqlJs_ok (env_of resp_404) \<and> fetch_response (env_of resp_404) = Some resp_404 \<and>
   \<not> ok resp_404 \<and>
   outcome (loadDatabase (env_of resp_404) (Some db_one)) =
     Inl (FailedToLoadDatabase (statusText resp_404)) \<and>
   db_after (loadDatabase (env_of resp_404) (Some db_one)) = None \<and>
   matchSNPs (db_after (loadDatabase (env_of resp_404) (Some db_one))) [mk_key ''rs123''] =
     Inl DatabaseNotLoaded \<and>
   searchSNPs (db_after (loadDatabase (env_of resp_404) (Some db_one))) no_filters =
     Inl DatabaseNotLoaded \<and>
   initSqlJs_ok (env_of resp_no_body) \<and> fetch_response (env_of resp_no_body) = Some resp_no_body \<and>
   ok resp_no_body \<and> body resp_no_body = None \<and>
   outcome (loadDatabase (env_of resp_no_body) None) = Inl BodyNotReadable \<and>
   db_after (loadDatabase (env_of resp_two_chunks) None) = Some db_three \<and>
   outcome (loadDatabase (env_of resp_two_chunks) None) = Inr ()"
proof -
  have h1: "initSqlJs_ok (env_of resp_404) \<and> fetch_response (env_of resp_404) = Some resp_404 \<and>
      \<not> ok resp_404"
    by (simp add: env_of_def resp_404_def)
  have h2: "initSqlJs_ok (env_of resp_no_body) \<and>
      fetch_response (env_of resp_no_body) = Some resp_no_body \<and>
      ok resp_no_body \<and> body resp_no_body = None"
    by (simp add: env_of_def resp_no_body_def)
  have h3: "db_after (loadDatabase (env_of resp_two_chunks) None) = Some db_three"
    by (simp add: load_two_chunks)
  note a = C8_load_failure [of "env_of resp_404" resp_404 "Some db_one"
      "FailedToLoadDatabase (statusText resp_404)" "[mk_key ''rs123'']" no_filters db_three]
  note b = C8_load_failure [of "env_of resp_no_body" resp_no_body None
      BodyNotReadable "[mk_key ''rs123'']" no_filters db_three]
  note c = C8_load_failure [of "env_of resp_two_chunks" resp_two_chunks None
      BodyNotReadable "[mk_key ''rs123'']" no_filters db_three]
  have o1: "outcome (loadDatabase (env_of resp_404) (Some db_one)) =
      Inl (FailedToLoadDatabase (statusText resp_404))" using a h1 by blast
  then have "db_after (loadDatabase (env_of resp_404) (Some db_one)) = None \<and>
      matchSNPs (db_after (loadDatabase (env_of resp_404) (Some db_one))) [mk_key ''rs123''] =
        Inl DatabaseNotLoaded \<and>
      searchSNPs (db_after (loadDatabase (env_of resp_404) (Some db_one))) no_filters =
        Inl DatabaseNotLoaded" using a by blast
  moreover have "outcome (loadDatabase (env_of resp_no_body) None) = Inl BodyNotReadable"
    using b h2 by blast
  moreover have "outcome (loadDatabase (env_of resp_two_chunks) None) = Inr ()"
    using c h3 by blast
  ultimately show ?thesis using h1 h2 h3 o1 by blast
qed

end
